theory Spec2Isabelle
  imports Complex_Main "HOL-Library.Word" "HOL-Library.Sublist"
begin

section \<open>The super-resolution demo (super\_resolution\_demo/main.cpp)\<close>

text \<open>
  The sample is one translation unit: the template \<open>clip\<close>, the function
  \<open>ParseAndCheckCommandLine\<close> and \<open>main\<close>. Everything else it calls belongs to the
  inference engine, to OpenCV, to gflags or to the samples' common headers. The
  embedding keeps the control flow of the three functions and takes the collaborators
  as an environment of functions, so that a run is a function of the parsed flags and
  of what the collaborators answer.
\<close>

subsection \<open>\<open>clip\<close> (lines 31--34)\<close>

text \<open>
  \<open>std::max(a, b)\<close> is \<open>(a < b) ? b : a\<close> and \<open>std::min(a, b)\<close> is
  \<open>(b < a) ? b : a\<close>; both are written with \<open><\<close> only, as the standard library
  does.
\<close>

definition std_max :: "'a::ord \<Rightarrow> 'a \<Rightarrow> 'a" where
  "std_max a b = (if a < b then b else a)"

definition std_min :: "'a::ord \<Rightarrow> 'a \<Rightarrow> 'a" where
  "std_min a b = (if b < a then b else a)"

definition clip :: "'a::ord \<Rightarrow> 'a \<Rightarrow> 'a \<Rightarrow> 'a" where
  "clip n lower upper = std_max lower (std_min n upper)"


subsection \<open>Command-line flags\<close>

text \<open>
  The flags are declared with gflags in \<open>super_resolution_demo.h\<close>; \<open>main.cpp\<close> reads
  them as globals after \<open>gflags::ParseCommandLineNonHelpFlags\<close>. A run starts from the
  parsed values. \<open>-ni\<close> is a 32-bit signed integer (the check \<open>FLAGS_ni < 1\<close> is a
  signed comparison, read here with \<open>sint\<close>).
\<close>

record flags =
  FLAGS_h :: bool
  FLAGS_ni :: "32 word"
  FLAGS_i :: string
  FLAGS_m :: string
  FLAGS_d :: string
  FLAGS_pp :: string
  FLAGS_l :: string
  FLAGS_c :: string
  FLAGS_pc :: bool
  FLAGS_show :: bool

subsection \<open>Exceptions, results and what a run leaves behind\<close>

text \<open>
  The two handlers of \<open>main\<close> tell an exception derived from \<open>std::exception\<close>
  (with its \<open>what()\<close>) from any other one. A null pointer dereference or a subscript
  out of range is undefined behaviour in C++: no handler sees it, so it is a result of
  its own.
\<close>

datatype exn = Std_exception string | Unknown_exception

datatype 'a result = Ok 'a | Throws exn | Undefined

datatype exit = Exit int | Crash

text \<open>
  A decoded image: \<open>cv::Mat\<close> with its \<open>int\<close> fields \<open>rows\<close> and \<open>cols\<close> and its
  8-bit pixel data.
\<close>

record mat =
  rows :: int
  cols :: int
  data :: "8 word list"

datatype interpolation = INTER_NEAREST | INTER_LINEAR | INTER_CUBIC

text \<open>
  The observable steps of a run, in the order they happen: log lines (\<open>slog::info\<close>,
  \<open>slog::warn\<close>, \<open>slog::err\<close>), calls into the inference engine and into OpenCV, and
  what is printed on standard output. A call is recorded when it is made, before its
  outcome is known. Log lines that format a value carry the value instead of the text.
  \<open>'d\<close> is the type of \<open>double\<close>.
\<close>

datatype 'd event =
    Info string
  | Info_batch_size nat
  | Info_start_inference int
  | Info_output_size nat nat nat nat
  | Warn_cannot_read string
  | Warn_size string int int
  | Err string
  | ShowUsage
  | GetPluginByDevice string string
  | PrintPluginVersion
  | AddExtension
  | SetConfig string
  | ReadNetwork string
  | ReadWeights string
  | GetNetwork
  | SetBatchSize nat
  | SetPrecisionFP32 string
  | LoadNetwork
  | CreateInferRequest
  | Infer
  | Average 'd
  | PrintPerformanceCounts
  | ConvertTo "nat list"
  | ImShow
  | ImWrite string

text \<open>
  The state a run threads through: the steps so far, and the contents of the infer
  request's input blobs, by blob name and batch index. Blobs are shared objects
  (\<open>Blob::Ptr\<close>): every \<open>GetBlob\<close> of one name yields the same buffer, which is why the
  contents live in the state and not in a local value.
\<close>

record 'd state =
  trace :: "'d event list"
  blobs :: "string \<Rightarrow> nat \<Rightarrow> mat option"

definition init :: "'d state" where
  "init = \<lparr>trace = [], blobs = (\<lambda>_ _. None)\<rparr>"

type_synonym ('d, 'a) prog = "'d state \<Rightarrow> 'a result \<times> 'd state"

definition ret :: "'a \<Rightarrow> ('d, 'a) prog" where
  "ret x = (\<lambda>s. (Ok x, s))"

definition throw :: "exn \<Rightarrow> ('d, 'a) prog" where
  "throw e = (\<lambda>s. (Throws e, s))"

definition undefined_behaviour :: "('d, 'a) prog" where
  "undefined_behaviour = (\<lambda>s. (Undefined, s))"

text \<open>Sequencing: an exception or undefined behaviour ends the block at once.\<close>

definition seq :: "('d, 'a) prog \<Rightarrow> ('a \<Rightarrow> ('d, 'b) prog) \<Rightarrow> ('d, 'b) prog" where
  "seq m f = (\<lambda>s. case m s of
                     (Ok x, s') \<Rightarrow> f x s'
                   | (Throws e, s') \<Rightarrow> (Throws e, s')
                   | (Undefined, s') \<Rightarrow> (Undefined, s'))"

definition emit :: "'d event \<Rightarrow> ('d, unit) prog" where
  "emit ev = (\<lambda>s. (Ok (), s\<lparr>trace := trace s @ [ev]\<rparr>))"

text \<open>A call into a collaborator that returns nothing: it is recorded, then it may throw.\<close>

definition call :: "'d event \<Rightarrow> exn option \<Rightarrow> ('d, unit) prog" where
  "call ev outcome =
     seq (emit ev) (\<lambda>_. case outcome of None \<Rightarrow> ret () | Some e \<Rightarrow> throw e)"

text \<open>A call that returns a value or throws.\<close>

definition get :: "exn + 'a \<Rightarrow> ('d, 'a) prog" where
  "get outcome = (case outcome of Inl e \<Rightarrow> throw e | Inr x \<Rightarrow> ret x)"

text \<open>\<open>v[k]\<close> on a \<open>std::vector\<close>, and \<open>p->\<close> on a shared pointer that may be null.\<close>

definition subscript :: "'a list \<Rightarrow> nat \<Rightarrow> ('d, 'a) prog" where
  "subscript xs k = (if k < length xs then ret (xs ! k) else undefined_behaviour)"

definition deref :: "'a option \<Rightarrow> ('d, 'a) prog" where
  "deref p = (case p of None \<Rightarrow> undefined_behaviour | Some x \<Rightarrow> ret x)"

subsection \<open>The collaborators\<close>

text \<open>
  The network as \<open>main\<close> looks at it: the inputs map (name to tensor dimensions, in the
  order N, C, H, W), the outputs map (name to whether the data pointer is non-null) and
  the batch size. Both maps are \<open>std::map\<close>s, here the lists of their entries in key
  order. \<open>'sz\<close> is the type of \<open>size_t\<close>; the functions below take it to be a machine
  word of any width.
\<close>

record 'sz network =
  inputsInfo :: "(string \<times> 'sz list) list"
  outputsInfo :: "(string \<times> bool) list"
  batchSize :: nat

text \<open>
  What the collaborators answer. \<open>parseInputFilesArguments\<close>, \<open>fileNameNoExt\<close> and the
  plugin, reader and request calls are not part of \<open>main.cpp\<close>; each is a function of
  its arguments here. \<open>imread\<close> is \<open>None\<close> when OpenCV returns an empty matrix.
  \<open>getBlob b name\<close> is the dimension vector of the request's blob \<open>name\<close> once the
  network was loaded with batch size \<open>b\<close>, or the exception \<open>GetBlob\<close> throws.
  \<open>infer k\<close> is the outcome of the \<open>k\<close>-th forward pass and \<open>duration k\<close> the
  milliseconds the clock measured around it (\<open>d.count()\<close>).
\<close>

record ('sz, 'd) env =
  parseInputFilesArguments :: "string \<Rightarrow> string list"
  getPluginByDevice :: "string \<Rightarrow> string \<Rightarrow> exn option"
  addCpuExtension :: "exn option"
  addExtension :: "string \<Rightarrow> exn option"
  setConfig :: "string \<Rightarrow> exn option"
  readNetwork :: "string \<Rightarrow> exn option"
  fileNameNoExt :: "string \<Rightarrow> string"
  readWeights :: "string \<Rightarrow> exn option"
  getNetwork :: "'sz network"
  imread :: "string \<Rightarrow> mat option"
  setBatchSize :: "nat \<Rightarrow> exn option"
  loadNetwork :: "nat \<Rightarrow> exn option"
  createInferRequest :: "exn option"
  getBlob :: "nat \<Rightarrow> string \<Rightarrow> exn + 'sz list"
  resize :: "mat \<Rightarrow> int \<Rightarrow> int \<Rightarrow> interpolation \<Rightarrow> exn + mat"
  infer :: "nat \<Rightarrow> exn option"
  duration :: "nat \<Rightarrow> 'd"
  double_of_int :: "int \<Rightarrow> 'd"
  printPerformanceCounts :: "exn option"
  imshow :: "nat \<Rightarrow> exn option"
  imwrite :: "string \<Rightarrow> exn option"

subsection \<open>Conversions and the standard library\<close>

text \<open>
  \<open>size_t\<close> to \<open>int\<close>, explicit (\<open>static_cast<int>\<close>, lines 142--143) or implicit
  (lines 199--200, and the \<open>cv::Mat\<close> and \<open>cv::Size\<close> constructors): the low 32 bits,
  read as two's complement.
\<close>

definition to_int :: "'w::len word \<Rightarrow> int" where
  "to_int x = sint (ucast x :: 32 word)"

text \<open>\<open>std::to_string\<close> of an unsigned value: its decimal digits.\<close>

definition digit :: "nat \<Rightarrow> char" where
  "digit d = ''0123456789'' ! d"

fun to_string :: "nat \<Rightarrow> string" where
  "to_string n =
     (if n < 10 then [digit n] else to_string (n div 10) @ [digit (n mod 10)])"

declare to_string.simps [simp del]

text \<open>\<open>s.find(sub) != std::string::npos\<close>.\<close>

fun string_find :: "string \<Rightarrow> string \<Rightarrow> bool" where
  "string_find [] sub = (sub = [])"
| "string_find (c # cs) sub = (take (length sub) (c # cs) = sub \<or> string_find cs sub)"

subsection \<open>\<open>ParseAndCheckCommandLine\<close> (lines 36--59)\<close>

definition ParseAndCheckCommandLine :: "flags \<Rightarrow> ('d, bool) prog" where
  "ParseAndCheckCommandLine fl =
     seq (emit (Info ''Parsing input parameters'')) (\<lambda>_.
       if FLAGS_h fl then seq (emit ShowUsage) (\<lambda>_. ret False)
       else if sint (FLAGS_ni fl) < 1 then
         throw (Std_exception ''Parameter -ni should be more than 0 !!! (default 1)'')
       else if FLAGS_i fl = [] then throw (Std_exception ''Parameter -i is not set'')
       else if FLAGS_m fl = [] then throw (Std_exception ''Parameter -m is not set'')
       else ret True)"

subsection \<open>\<open>main\<close>, section by section (lines 61--281)\<close>

text \<open>1. Load Plugin for inference engine (lines 75--102).\<close>

definition load_plugin :: "flags \<Rightarrow> ('sz, 'd) env \<Rightarrow> ('d, unit) prog" where
  "load_plugin fl env =
     seq (emit (Info ''Loading plugin'')) (\<lambda>_.
     seq (call (GetPluginByDevice (FLAGS_pp fl) (FLAGS_d fl))
            (getPluginByDevice env (FLAGS_pp fl) (FLAGS_d fl))) (\<lambda>_.
     seq (emit PrintPluginVersion) (\<lambda>_.
     seq (if string_find (FLAGS_d fl) ''CPU'' then call AddExtension (addCpuExtension env)
          else ret ()) (\<lambda>_.
     seq (if FLAGS_l fl \<noteq> [] then
            seq (call AddExtension (addExtension env (FLAGS_l fl))) (\<lambda>_.
              emit (Info (''CPU Extension loaded: '' @ FLAGS_l fl)))
          else ret ()) (\<lambda>_.
     if FLAGS_c fl \<noteq> [] then
       seq (call (SetConfig (FLAGS_c fl)) (setConfig env (FLAGS_c fl))) (\<lambda>_.
         emit (Info (''GPU Extension loaded: '' @ FLAGS_c fl)))
     else ret ())))))"

text \<open>2. Read IR generated by ModelOptimizer (lines 105--115).\<close>

definition read_network :: "flags \<Rightarrow> ('sz, 'd) env \<Rightarrow> ('d, 'sz network) prog" where
  "read_network fl env =
     seq (emit (Info ''Loading network files'')) (\<lambda>_.
     seq (call (ReadNetwork (FLAGS_m fl)) (readNetwork env (FLAGS_m fl))) (\<lambda>_.
     let binFileName = fileNameNoExt env (FLAGS_m fl) @ ''.bin'' in
     seq (call (ReadWeights binFileName) (readWeights env binFileName)) (\<lambda>_.
     seq (emit GetNetwork) (\<lambda>_. ret (getNetwork env)))))"

text \<open>
  3. Configure input and output. Prepare input blobs (lines 121--157): the loop over
  the candidate paths (lines 133--151) keeps the accepted images in \<open>inputImages\<close>.
  \<open>inputInfo[lrInputBlobName]\<close> is \<open>operator[]\<close> of a map of shared pointers: for a
  name the map does not hold it yields a null pointer, which line 142 dereferences.
\<close>

definition lrInputBlobName :: string where
  "lrInputBlobName = ''0''"

definition bicInputBlobName :: string where
  "bicInputBlobName = ''1''"

fun collect_images ::
  "('w::len word, 'd) env \<Rightarrow> (string \<times> 'w word list) list \<Rightarrow> string list \<Rightarrow> mat list
     \<Rightarrow> ('d, mat list) prog" where
  "collect_images env inputInfo [] inputImages = ret inputImages"
| "collect_images env inputInfo (i # rest) inputImages =
     (case imread env i of
        None \<Rightarrow>
          seq (emit (Warn_cannot_read i)) (\<lambda>_. collect_images env inputInfo rest inputImages)
      | Some img \<Rightarrow>
          seq (deref (map_of inputInfo lrInputBlobName)) (\<lambda>lrDims.
          seq (subscript lrDims 3) (\<lambda>d3.
          seq (subscript lrDims 2) (\<lambda>d2.
            let w = to_int d3; h = to_int d2 in
            if w \<noteq> cols img \<or> h \<noteq> rows img then
              seq (emit (Warn_size i w h)) (\<lambda>_. collect_images env inputInfo rest inputImages)
            else collect_images env inputInfo rest (inputImages @ [img])))))"

definition prepare_input_blobs ::
  "('w::len word, 'd) env \<Rightarrow> 'w word network \<Rightarrow> string list
     \<Rightarrow> ('d, mat list \<times> 'w word network) prog" where
  "prepare_input_blobs env network imageNames =
     seq (emit (Info ''Preparing input blobs'')) (\<lambda>_.
       let inputInfo = inputsInfo network in
       if length inputInfo \<noteq> 1 \<and> length inputInfo \<noteq> 2 then
         throw (Std_exception ''The demo supports topologies with 1 or 2 inputs only'')
       else
         seq (collect_images env inputInfo imageNames []) (\<lambda>inputImages.
           if inputImages = [] then
             throw (Std_exception ''Valid input images were not found!'')
           else
             seq (call (SetBatchSize (length imageNames))
                    (setBatchSize env (length imageNames))) (\<lambda>_.
             let network = network\<lparr>batchSize := length imageNames\<rparr> in
             seq (emit (Info_batch_size (batchSize network))) (\<lambda>_.
               ret (inputImages, network)))))"

text \<open>Prepare output blobs (lines 160--175).\<close>

fun output_items :: "(string \<times> bool) list \<Rightarrow> string \<Rightarrow> ('d, string) prog" where
  "output_items [] firstOutputName = ret firstOutputName"
| "output_items (item # rest) firstOutputName =
     (let firstOutputName = (if firstOutputName = [] then fst item else firstOutputName) in
      if \<not> snd item then throw (Std_exception ''output data pointer is not valid'')
      else seq (emit (SetPrecisionFP32 (fst item))) (\<lambda>_. output_items rest firstOutputName))"

definition prepare_output_blobs :: "'sz network \<Rightarrow> ('d, string) prog" where
  "prepare_output_blobs network =
     seq (emit (Info ''Preparing output blobs'')) (\<lambda>_. output_items (outputsInfo network) [])"

text \<open>4. Loading model to the plugin, 5. Create infer request (lines 179--185).\<close>

definition load_model :: "('sz, 'd) env \<Rightarrow> 'sz network \<Rightarrow> ('d, unit) prog" where
  "load_model env network =
     seq (emit (Info ''Loading model to the plugin'')) (\<lambda>_.
     seq (call LoadNetwork (loadNetwork env (batchSize network))) (\<lambda>_.
     seq (emit (Info ''Create infer request'')) (\<lambda>_.
       call CreateInferRequest (createInferRequest env))))"

text \<open>
  Modelled from the spec: \<open>matU8ToBlob\<close> is defined in \<open>samples/ocv_common.hpp\<close>,
  which is not among the sources. The specification (4.7 Tensor fill) says that for each
  image at its batch index it converts the decoded 8-bit pixel data into the tensor's
  memory layout and floating precision, writing into the pre-allocated request buffer
  at the correct batch offset, with no normalization beyond type and layout conversion.
  The model records which image the slot of that batch index now holds.
\<close>

definition matU8ToBlob :: "mat \<Rightarrow> string \<Rightarrow> nat \<Rightarrow> ('d, unit) prog" where
  "matU8ToBlob orig_image blobName batchIndex =
     (\<lambda>s. (Ok (), s\<lparr>blobs := (blobs s)(blobName := (blobs s blobName)(batchIndex \<mapsto> orig_image))\<rparr>))"

text \<open>
  6. Prepare input (lines 189--207): the body of the loop for the image at index \<open>i\<close>,
  then the loop over \<open>inputImages\<close>.
\<close>

definition fill_one ::
  "('w::len word, 'd) env \<Rightarrow> 'w word network \<Rightarrow> nat \<Rightarrow> mat \<Rightarrow> ('d, unit) prog" where
  "fill_one env network i img =
     seq (matU8ToBlob img lrInputBlobName i) (\<lambda>_.
     let twoInputs = (length (inputsInfo network) = 2) in
     if twoInputs then
       seq (get (getBlob env (batchSize network) bicInputBlobName)) (\<lambda>bicDims.
       seq (subscript bicDims 3) (\<lambda>d3.
       seq (subscript bicDims 2) (\<lambda>d2.
         let w = to_int d3; h = to_int d2 in
         seq (get (resize env img w h INTER_CUBIC)) (\<lambda>resized.
           matU8ToBlob resized bicInputBlobName i))))
     else ret ())"

fun fill_inputs ::
  "('w::len word, 'd) env \<Rightarrow> 'w word network \<Rightarrow> nat \<Rightarrow> mat list \<Rightarrow> ('d, unit) prog" where
  "fill_inputs env network i [] = ret ()"
| "fill_inputs env network i (img # rest) =
     seq (fill_one env network i img) (\<lambda>_. fill_inputs env network (Suc i) rest)"

definition prepare_input ::
  "('w::len word, 'd) env \<Rightarrow> 'w word network \<Rightarrow> mat list \<Rightarrow> ('d, unit) prog" where
  "prepare_input env network inputImages =
     seq (get (getBlob env (batchSize network) lrInputBlobName)) (\<lambda>_.
       fill_inputs env network 0 inputImages)"

text \<open>
  7. Do inference (lines 211--234). The loop counter is a \<open>size_t\<close>, so the comparison
  \<open>iter < FLAGS_ni\<close> converts \<open>FLAGS_ni\<close> to \<open>size_t\<close> (\<open>scast\<close>). \<open>total\<close> starts at
  \<open>0.0\<close> and grows by \<open>+=\<close>; the arithmetic of \<open>double\<close> is whatever \<open>0\<close>, \<open>+\<close> and
  \<open>/\<close> are on \<open>'d\<close>.
\<close>

function infer_loop ::
  "('sz, 'd::{zero,plus,inverse}) env \<Rightarrow> nat \<Rightarrow> nat \<Rightarrow> 'd \<Rightarrow> ('d, 'd) prog" where
  "infer_loop env bound iter total_ms =
     (if iter < bound then
        seq (call Infer (infer env iter)) (\<lambda>_.
          infer_loop env bound (Suc iter) (total_ms + duration env iter))
      else ret total_ms)"
  by pat_completeness auto
termination
  by (relation "measure (\<lambda>(env, bound, iter, total_ms). bound - iter)") auto

declare infer_loop.simps [simp del]

definition do_inference ::
  "flags \<Rightarrow> ('w::len word, 'd::{zero,plus,inverse}) env \<Rightarrow> ('d, unit) prog" where
  "do_inference fl env =
     seq (emit (Info_start_inference (sint (FLAGS_ni fl)))) (\<lambda>_.
     seq (infer_loop env (unat (scast (FLAGS_ni fl) :: 'w word)) 0 0) (\<lambda>total_ms.
     seq (emit (Average (total_ms / double_of_int env (sint (FLAGS_ni fl))))) (\<lambda>_.
       if FLAGS_pc fl then call PrintPerformanceCounts (printPerformanceCounts env)
       else ret ())))"

text \<open>
  8. Process output (lines 238--267). The three planes of batch element \<open>i\<close> are
  \<open>cv::Mat\<close> headers over the output buffer, starting at the three offsets computed in
  \<open>size_t\<close>; \<open>convertTo\<close> then reads \<open>rows * cols\<close> floats from each start, one
  plane after the other. The step \<open>ConvertTo\<close> carries the indices of the buffer that
  the call reads. A read at or beyond the end of the buffer is undefined behaviour.
\<close>

definition plane_starts :: "'w::len word \<Rightarrow> 'w word \<Rightarrow> 'w word \<Rightarrow> 'w word list" where
  "plane_starts i nunOfPixels numOfChannels =
     [i * nunOfPixels * numOfChannels,
      i * nunOfPixels * numOfChannels + nunOfPixels,
      i * nunOfPixels * numOfChannels + nunOfPixels * 2]"

definition plane_reads :: "'w::len word \<Rightarrow> 'w word \<Rightarrow> 'w word \<Rightarrow> nat list" where
  "plane_reads start h w = map (\<lambda>k. unat start + k) [0 ..< nat (to_int h) * nat (to_int w)]"

definition convertTo :: "nat \<Rightarrow> 'w::len word \<Rightarrow> 'w word \<Rightarrow> 'w word \<Rightarrow> ('d, unit) prog" where
  "convertTo bufferSize start h w =
     seq (emit (ConvertTo (plane_reads start h w))) (\<lambda>_.
       if list_ex (\<lambda>idx. bufferSize \<le> idx) (plane_reads start h w) then undefined_behaviour
       else ret ())"

fun convert_planes ::
  "nat \<Rightarrow> 'w::len word list \<Rightarrow> 'w word \<Rightarrow> 'w word \<Rightarrow> ('d, unit) prog" where
  "convert_planes bufferSize [] h w = ret ()"
| "convert_planes bufferSize (start # imgPlanes) h w =
     seq (convertTo bufferSize start h w) (\<lambda>_. convert_planes bufferSize imgPlanes h w)"

fun write_images ::
  "flags \<Rightarrow> ('w::len word, 'd) env \<Rightarrow> nat \<Rightarrow> 'w word \<Rightarrow> 'w word \<Rightarrow> 'w word \<Rightarrow> nat list
     \<Rightarrow> ('d, unit) prog" where
  "write_images fl env bufferSize numOfChannels h w [] = ret ()"
| "write_images fl env bufferSize numOfChannels h w (i # rest) =
     seq (convert_planes bufferSize (plane_starts (of_nat i) (w * h) numOfChannels) h w) (\<lambda>_.
     seq (if FLAGS_show fl then call ImShow (imshow env i) else ret ()) (\<lambda>_.
     let outImgName = ''sr_'' @ to_string (i + 1) @ ''.png'' in
     seq (call (ImWrite outImgName) (imwrite env outImgName)) (\<lambda>_.
       write_images fl env bufferSize numOfChannels h w rest)))"

definition process_output ::
  "flags \<Rightarrow> ('w::len word, 'd) env \<Rightarrow> 'w word network \<Rightarrow> string \<Rightarrow> ('d, unit) prog" where
  "process_output fl env network firstOutputName =
     seq (get (getBlob env (batchSize network) firstOutputName)) (\<lambda>outDims.
     seq (subscript outDims 0) (\<lambda>numOfImages.
     seq (subscript outDims 1) (\<lambda>numOfChannels.
     seq (subscript outDims 2) (\<lambda>h.
     seq (subscript outDims 3) (\<lambda>w.
     seq (emit (Info_output_size (unat numOfImages) (unat numOfChannels) (unat h) (unat w))) (\<lambda>_.
       write_images fl env (prod_list (map unat outDims)) numOfChannels h w
         [0 ..< unat numOfImages]))))))"

text \<open>
  The \<open>try\<close> block (lines 62--269) in three nested parts: from section 7 on, from
  section 3 on, and the whole of it.
\<close>

definition infer_and_output ::
  "flags \<Rightarrow> ('w::len word, 'd::{zero,plus,inverse}) env \<Rightarrow> 'w word network \<Rightarrow> string
     \<Rightarrow> ('d, unit) prog" where
  "infer_and_output fl env network firstOutputName =
     seq (do_inference fl env) (\<lambda>_. process_output fl env network firstOutputName)"

definition configure_and_run ::
  "flags \<Rightarrow> ('w::len word, 'd::{zero,plus,inverse}) env \<Rightarrow> 'w word network \<Rightarrow> string list
     \<Rightarrow> ('d, unit) prog" where
  "configure_and_run fl env network imageNames =
     seq (prepare_input_blobs env network imageNames) (\<lambda>(inputImages, network).
     seq (prepare_output_blobs network) (\<lambda>firstOutputName.
     seq (load_model env network) (\<lambda>_.
     seq (prepare_input env network inputImages) (\<lambda>_.
       infer_and_output fl env network firstOutputName))))"

definition try_block ::
  "flags \<Rightarrow> ('w::len word, 'd::{zero,plus,inverse}) env \<Rightarrow> ('d, bool) prog" where
  "try_block fl env =
     seq (emit (Info ''InferenceEngine: '')) (\<lambda>_.
     seq (ParseAndCheckCommandLine fl) (\<lambda>continue.
       if \<not> continue then ret False
       else
         let imageNames = parseInputFilesArguments env (FLAGS_i fl) in
         if imageNames = [] then throw (Std_exception ''No suitable images were found'')
         else
           seq (load_plugin fl env) (\<lambda>_.
           seq (read_network fl env) (\<lambda>network.
           seq (configure_and_run fl env network imageNames) (\<lambda>_. ret True)))))"

text \<open>
  The handlers and the two \<open>return\<close>s (lines 66, 270--280). \<open>Ok False\<close> is the early
  \<open>return 0\<close> of line 66, \<open>Ok True\<close> the end of the \<open>try\<close> block.
\<close>

definition handlers :: "bool result \<times> 'd state \<Rightarrow> exit \<times> 'd state" where
  "handlers outcome =
     (case outcome of
        (Ok True, s) \<Rightarrow> (Exit 0, s\<lparr>trace := trace s @ [Info ''Execution successful'']\<rparr>)
      | (Ok False, s) \<Rightarrow> (Exit 0, s)
      | (Throws (Std_exception what), s) \<Rightarrow> (Exit 1, s\<lparr>trace := trace s @ [Err what]\<rparr>)
      | (Throws Unknown_exception, s) \<Rightarrow>
          (Exit 1, s\<lparr>trace := trace s @ [Err ''Unknown/internal exception happened'']\<rparr>)
      | (Undefined, s) \<Rightarrow> (Crash, s))"

definition main ::
  "flags \<Rightarrow> ('w::len word, 'd::{zero,plus,inverse}) env \<Rightarrow> exit \<times> 'd state" where
  "main fl env = handlers (try_block fl env init)"

section \<open>Vocabulary of the properties\<close>

text \<open>
  The steps of a run are ranked by the part of the program that takes them: 0 for the
  plain log lines and the usage text, 1 for section 1 of \<open>main\<close>, 2 for section 2, 3
  for the warnings of the image filter, 4 for the batch size, 5 for the output
  precision, 6 for sections 4 and 5, 7 for section 7, 8 for section 8 and 9 for the
  error line of the handlers.
\<close>

fun rank :: "'d event \<Rightarrow> nat" where
  "rank (Info _) = 0"
| "rank ShowUsage = 0"
| "rank (GetPluginByDevice _ _) = 1"
| "rank PrintPluginVersion = 1"
| "rank AddExtension = 1"
| "rank (SetConfig _) = 1"
| "rank (ReadNetwork _) = 2"
| "rank (ReadWeights _) = 2"
| "rank GetNetwork = 2"
| "rank (Warn_cannot_read _) = 3"
| "rank (Warn_size _ _ _) = 3"
| "rank (SetBatchSize _) = 4"
| "rank (Info_batch_size _) = 4"
| "rank (SetPrecisionFP32 _) = 5"
| "rank LoadNetwork = 6"
| "rank CreateInferRequest = 6"
| "rank (Info_start_inference _) = 7"
| "rank Infer = 7"
| "rank (Average _) = 7"
| "rank PrintPerformanceCounts = 7"
| "rank (Info_output_size _ _ _ _) = 8"
| "rank (ConvertTo _) = 8"
| "rank ImShow = 8"
| "rank (ImWrite _) = 8"
| "rank (Err _) = 9"

text \<open>
  What the handlers add to the record, and the exit code, as functions of the result
  of the \<open>try\<close> block; \<open>completed\<close> is the result of the block when its last
  part ends with the given result.
\<close>

definition final_log :: "bool result \<Rightarrow> 'd event list" where
  "final_log r =
     (case r of
        Ok True \<Rightarrow> [Info ''Execution successful'']
      | Ok False \<Rightarrow> []
      | Throws (Std_exception what) \<Rightarrow> [Err what]
      | Throws Unknown_exception \<Rightarrow> [Err ''Unknown/internal exception happened'']
      | Undefined \<Rightarrow> [])"

definition exit_code :: "'a result \<Rightarrow> exit" where
  "exit_code r = (case r of Ok _ \<Rightarrow> Exit 0 | Throws _ \<Rightarrow> Exit 1 | Undefined \<Rightarrow> Crash)"

definition completed :: "unit result \<Rightarrow> bool result" where
  "completed r = (case r of Ok _ \<Rightarrow> Ok True | Throws e \<Rightarrow> Throws e | Undefined \<Rightarrow> Undefined)"

text \<open>
  \<open>emits_only P p\<close>: whatever the state, \<open>p\<close> only appends steps that satisfy \<open>P\<close>
  to the record. \<open>keeps_blobs p\<close>: \<open>p\<close> leaves the input blobs as they are.
\<close>

definition emits_only :: "('d event \<Rightarrow> bool) \<Rightarrow> ('d, 'a) prog \<Rightarrow> bool" where
  "emits_only P p \<longleftrightarrow> (\<forall>s. \<exists>evs. trace (snd (p s)) = trace s @ evs \<and> list_all P evs)"

definition keeps_blobs :: "('d, 'a) prog \<Rightarrow> bool" where
  "keeps_blobs p \<longleftrightarrow> (\<forall>s. blobs (snd (p s)) = blobs s)"

text \<open>
  The image filter as the specification words it: an image is accepted when it decoded
  and its width and height are exactly the declared width and height of the
  low-resolution input (dimensions 3 and 2 of the tensor); every other candidate yields
  one warning. They are compared with the loop of lines 133--151 below.
\<close>

definition size_matches :: "'w::len word list \<Rightarrow> mat \<Rightarrow> bool" where
  "size_matches lrDims img \<longleftrightarrow> cols img = uint (lrDims ! 3) \<and> rows img = uint (lrDims ! 2)"

fun accepted_images :: "('w::len word, 'd) env \<Rightarrow> 'w word list \<Rightarrow> string list \<Rightarrow> mat list" where
  "accepted_images env lrDims [] = []"
| "accepted_images env lrDims (i # rest) =
     (case imread env i of
        None \<Rightarrow> accepted_images env lrDims rest
      | Some img \<Rightarrow>
          if size_matches lrDims img then img # accepted_images env lrDims rest
          else accepted_images env lrDims rest)"



fun is_imwrite :: "'d event \<Rightarrow> bool" where
  "is_imwrite (ImWrite _) = True"
| "is_imwrite _ = False"

text \<open>
  The planes that a run converted, in order: for every \<open>ConvertTo\<close> step of the record
  the list of buffer indices it read.
\<close>

definition reads_of :: "'d event \<Rightarrow> nat list list" where
  "reads_of ev = (case ev of ConvertTo reads \<Rightarrow> [reads] | _ \<Rightarrow> [])"

definition conversions :: "'d event list \<Rightarrow> nat list list" where
  "conversions evs = concat (map reads_of evs)"

text \<open>
  The output planes as the specification words them: batch element \<open>i\<close> of a buffer of
  shape \<open>(N, C, H, W)\<close> has its region at \<open>i * (C * (H * W))\<close>, and its three planes
  are the \<open>H * W\<close> consecutive indices at the offsets 0, \<open>H * W\<close> and \<open>2 * (H * W)\<close>
  into that region. \<open>size_t\<close> is what the arithmetic of the offsets does to a number:
  \<open>\<lambda>x. x mod 2 ^ LENGTH('w)\<close> for the program, \<open>\<lambda>x. x\<close> for the integers.
\<close>

definition element_planes ::
  "(nat \<Rightarrow> nat) \<Rightarrow> nat \<Rightarrow> nat \<Rightarrow> nat \<Rightarrow> nat \<Rightarrow> nat list list" where
  "element_planes size_t C H W i =
     map (\<lambda>offset. map (\<lambda>k. size_t (i * (C * (H * W)) + offset) + k) [0 ..< H * W])
       [0, H * W, 2 * (H * W)]"

section \<open>Concrete runs\<close>

text \<open>
  A model with a 2x2 low-resolution input \<open>0\<close>, a 4x4 companion input \<open>1\<close> and one
  output \<open>129\<close> whose batch dimension follows the batch size of the network; two
  candidate paths, of which \<open>good.bmp\<close> decodes to a 2x2 image and \<open>missing.bmp\<close>
  does not decode; two iterations, measured at 10 and 12 milliseconds.
\<close>

definition demo_flags :: flags where
  "demo_flags = \<lparr>FLAGS_h = False, FLAGS_ni = 2, FLAGS_i = ''images'', FLAGS_m = ''model.xml'',
     FLAGS_d = ''MYRIAD'', FLAGS_pp = [], FLAGS_l = [], FLAGS_c = [], FLAGS_pc = False,
     FLAGS_show = False\<rparr>"

definition demo_network :: "32 word network" where
  "demo_network =
     \<lparr>inputsInfo = [(''0'', [1, 3, 2, 2]), (''1'', [1, 3, 4, 4])],
      outputsInfo = [(''129'', True)], batchSize = 1\<rparr>"

definition good_image :: mat where
  "good_image = \<lparr>rows = 2, cols = 2, data = replicate 12 7\<rparr>"

definition demo_env :: "(32 word, real) env" where
  "demo_env = \<lparr>
     parseInputFilesArguments = (\<lambda>_. [''good.bmp'', ''missing.bmp'']),
     getPluginByDevice = (\<lambda>_ _. None),
     addCpuExtension = None,
     addExtension = (\<lambda>_. None),
     setConfig = (\<lambda>_. None),
     readNetwork = (\<lambda>_. None),
     fileNameNoExt = (\<lambda>_. ''model''),
     readWeights = (\<lambda>_. None),
     getNetwork = demo_network,
     imread = (\<lambda>path. if path = ''good.bmp'' then Some good_image else None),
     setBatchSize = (\<lambda>_. None),
     loadNetwork = (\<lambda>_. None),
     createInferRequest = None,
     getBlob = (\<lambda>b name. if name = ''0'' then Inr [of_nat b, 3, 2, 2]
                          else if name = ''1'' then Inr [of_nat b, 3, 4, 4]
                          else if name = ''129'' then Inr [of_nat b, 3, 4, 4]
                          else Inl (Std_exception ''no such blob'')),
     resize = (\<lambda>img w h _. Inr \<lparr>rows = h, cols = w, data = replicate (nat (3 * w * h)) 7\<rparr>),
     infer = (\<lambda>_. None),
     duration = (\<lambda>k. 10 + 2 * real k),
     double_of_int = of_int,
     printPerformanceCounts = None,
     imshow = (\<lambda>_. None),
     imwrite = (\<lambda>_. None)\<rparr>"

text \<open>
  Variations: the help flag with \<open>-ni 0\<close>; \<open>-ni 0\<close> alone; a model with three
  inputs; a backend whose forward pass throws something that is not a
  \<open>std::exception\<close>; a \<open>good.bmp\<close> of 2x3 pixels, so that no candidate is
  accepted; that \<open>good.bmp\<close> with a model whose only input is named \<open>data\<close>; and a
  model whose output has one channel.
\<close>

definition help_flags :: flags where
  "help_flags = demo_flags\<lparr>FLAGS_h := True, FLAGS_ni := 0\<rparr>"

definition zero_ni_flags :: flags where
  "zero_ni_flags = demo_flags\<lparr>FLAGS_ni := 0\<rparr>"

definition three_inputs_env :: "(32 word, real) env" where
  "three_inputs_env = demo_env\<lparr>getNetwork := demo_network\<lparr>inputsInfo :=
     [(''0'', [1, 3, 2, 2]), (''1'', [1, 3, 4, 4]), (''2'', [1, 3, 8, 8])]\<rparr>\<rparr>"

definition failing_backend_env :: "(32 word, real) env" where
  "failing_backend_env = demo_env\<lparr>infer := (\<lambda>k. Some Unknown_exception)\<rparr>"

definition wrong_size_env :: "(32 word, real) env" where
  "wrong_size_env = demo_env\<lparr>imread :=
     (\<lambda>path. if path = ''good.bmp'' then Some \<lparr>rows = 3, cols = 2, data = replicate 18 7\<rparr>
              else None)\<rparr>"

definition unnamed_input_env :: "(32 word, real) env" where
  "unnamed_input_env = wrong_size_env\<lparr>getNetwork := demo_network\<lparr>inputsInfo :=
     [(''data'', [1, 3, 2, 2])]\<rparr>\<rparr>"

definition one_channel_env :: "(32 word, real) env" where
  "one_channel_env = demo_env\<lparr>getBlob :=
     (\<lambda>b name. if name = ''129'' then Inr [of_nat b, 1, 4, 4] else getBlob demo_env b name)\<rparr>"

section \<open>Lemmas\<close>

lemmas run_defs =
  main_def handlers_def try_block_def configure_and_run_def infer_and_output_def
  ParseAndCheckCommandLine_def load_plugin_def read_network_def
  prepare_input_blobs_def prepare_output_blobs_def load_model_def prepare_input_def
  do_inference_def process_output_def seq_def emit_def call_def ret_def throw_def get_def
  subscript_def deref_def undefined_behaviour_def init_def matU8ToBlob_def fill_one_def
  lrInputBlobName_def bicInputBlobName_def to_int_def plane_starts_def plane_reads_def
  convertTo_def infer_loop.simps to_string.simps digit_def Let_def upt_conv_Cons

lemmas demo_defs = demo_env_def demo_flags_def demo_network_def good_image_def

lemmas demo_defs' = demo_defs help_flags_def zero_ni_flags_def three_inputs_env_def
  failing_backend_env_def wrong_size_env_def unnamed_input_env_def one_channel_env_def

subsection \<open>Sequencing\<close>

lemma seq_ret [simp]: "seq (ret x) f = f x"
  by (simp add: seq_def ret_def)

lemma seq_throw [simp]: "seq (throw e) f = throw e"
  by (simp add: seq_def throw_def)

lemma seq_undefined [simp]: "seq undefined_behaviour f = undefined_behaviour"
  by (simp add: seq_def undefined_behaviour_def)

lemma seq_emit: "seq (emit ev) f s = f () (s\<lparr>trace := trace s @ [ev]\<rparr>)"
  by (simp add: seq_def emit_def)

lemma seq_Ok: "m s = (Ok x, s1) \<Longrightarrow> seq m f s = f x s1"
  by (simp add: seq_def)

lemma seq_Throws: "m s = (Throws e, s1) \<Longrightarrow> seq m f s = (Throws e, s1)"
  by (simp add: seq_def)

lemma seq_Undefined: "m s = (Undefined, s1) \<Longrightarrow> seq m f s = (Undefined, s1)"
  by (simp add: seq_def)

lemma seq_cases:
  assumes "seq m f s = (r, s')"
  obtains (ok) x s1 where "m s = (Ok x, s1)" "f x s1 = (r, s')"
    | (throws) e where "m s = (Throws e, s')" "r = Throws e"
    | (undefined) "m s = (Undefined, s')" "r = Undefined"
proof (cases "m s")
  case (Pair r1 s1)
  then show ?thesis
    using assms that by (cases r1) (auto simp: seq_def)
qed

lemma seq_assoc: "seq (seq m f) g = seq m (\<lambda>x. seq (f x) g)"
  by (rule ext) (simp add: seq_def split: prod.splits result.splits)

lemma seq_ret_True:
  assumes "m s = (r, s')"
  shows "seq m (\<lambda>_. ret True) s = (completed r, s')"
  using assms by (cases r) (auto simp: seq_def ret_def completed_def)

subsection \<open>Which steps a part of the program can add\<close>

lemma emits_onlyI:
  assumes "\<And>s. \<exists>evs. trace (snd (p s)) = trace s @ evs \<and> list_all P evs"
  shows "emits_only P p"
  using assms by (simp add: emits_only_def)

lemma emits_onlyD:
  assumes "emits_only P p" and "p s = (r, s')"
  obtains evs where "trace s' = trace s @ evs" "list_all P evs"
  using assms unfolding emits_only_def by (metis snd_conv)

lemma emits_only_mono:
  assumes "emits_only P p" and "\<And>ev. P ev \<Longrightarrow> Q ev"
  shows "emits_only Q p"
  unfolding emits_only_def
proof
  fix s
  obtain evs where "trace (snd (p s)) = trace s @ evs" "list_all P evs"
    using assms(1) unfolding emits_only_def by blast
  moreover from this(2) assms(2) have "list_all Q evs"
    by (simp add: list_all_iff)
  ultimately show "\<exists>evs. trace (snd (p s)) = trace s @ evs \<and> list_all Q evs"
    by blast
qed

lemma emits_only_ret [intro!]: "emits_only P (ret x)"
  by (simp add: emits_only_def ret_def)

lemma emits_only_throw [intro!]: "emits_only P (throw e)"
  by (simp add: emits_only_def throw_def)

lemma emits_only_undefined [intro!]: "emits_only P undefined_behaviour"
  by (simp add: emits_only_def undefined_behaviour_def)

lemma emits_only_emit [intro!]: "P ev \<Longrightarrow> emits_only P (emit ev)"
  by (simp add: emits_only_def emit_def)

lemma emits_only_seq [intro!]:
  assumes "emits_only P m" and "\<And>x. emits_only P (f x)"
  shows "emits_only P (seq m f)"
  unfolding emits_only_def
proof
  fix s
  obtain r1 s1 where m: "m s = (r1, s1)" by (cases "m s")
  with assms(1) obtain evs1 where e1: "trace s1 = trace s @ evs1" "list_all P evs1"
    by (rule emits_onlyD)
  show "\<exists>evs. trace (snd (seq m f s)) = trace s @ evs \<and> list_all P evs"
  proof (cases r1)
    case (Ok x)
    obtain r2 s2 where f: "f x s1 = (r2, s2)" by (cases "f x s1")
    with assms(2) obtain evs2 where e2: "trace s2 = trace s1 @ evs2" "list_all P evs2"
      by (rule emits_onlyD)
    have "seq m f s = (r2, s2)" using m Ok f by (simp add: seq_def)
    with e1 e2 show ?thesis by (intro exI [of _ "evs1 @ evs2"]) simp
  next
    case (Throws e)
    with m have "seq m f s = (Throws e, s1)" by (simp add: seq_def)
    with e1 show ?thesis by (intro exI [of _ evs1]) simp
  next
    case Undefined
    with m have "seq m f s = (Undefined, s1)" by (simp add: seq_def)
    with e1 show ?thesis by (intro exI [of _ evs1]) simp
  qed
qed

lemma emits_only_call [intro!]: "P ev \<Longrightarrow> emits_only P (call ev outcome)"
  unfolding call_def by (cases outcome) auto

lemma emits_only_get [intro!]: "emits_only P (get outcome)"
  unfolding get_def by (cases outcome) auto

lemma emits_only_subscript [intro!]: "emits_only P (subscript xs k)"
  unfolding subscript_def by auto

lemma emits_only_deref [intro!]: "emits_only P (deref p)"
  unfolding deref_def by (cases p) auto

lemma emits_only_matU8ToBlob [intro!]: "emits_only P (matU8ToBlob img name i)"
  by (simp add: emits_only_def matU8ToBlob_def)

lemma emits_only_if [intro!]:
  "(c \<Longrightarrow> emits_only P a) \<Longrightarrow> (\<not> c \<Longrightarrow> emits_only P b) \<Longrightarrow> emits_only P (if c then a else b)"
  by simp

lemma parse_emits: "emits_only (\<lambda>ev. rank ev = 0) (ParseAndCheckCommandLine fl)"
  unfolding ParseAndCheckCommandLine_def by auto

lemma load_plugin_emits: "emits_only (\<lambda>ev. rank ev \<le> 1) (load_plugin fl env)"
  unfolding load_plugin_def by auto

lemma read_network_emits: "emits_only (\<lambda>ev. rank ev = 0 \<or> rank ev = 2) (read_network fl env)"
  unfolding read_network_def Let_def by auto

lemma collect_images_emits:
  "emits_only (\<lambda>ev. rank ev = 3) (collect_images env inputInfo names acc)"
  by (induction names arbitrary: acc) (auto simp: Let_def split: option.splits)

lemma prepare_input_blobs_emits:
  "emits_only (\<lambda>ev. rank ev = 0 \<or> rank ev = 3 \<or> rank ev = 4) (prepare_input_blobs env network names)"
  unfolding prepare_input_blobs_def Let_def
  by (auto intro: emits_only_mono [OF collect_images_emits])

lemma output_items_emits:
  "emits_only (\<lambda>ev. rank ev = 5) (output_items items name)"
  by (induction items arbitrary: name) (auto simp: Let_def)

lemma prepare_output_blobs_emits:
  "emits_only (\<lambda>ev. rank ev = 0 \<or> rank ev = 5) (prepare_output_blobs network)"
  unfolding prepare_output_blobs_def
  by (auto intro: emits_only_mono [OF output_items_emits])

lemma load_model_emits:
  "emits_only (\<lambda>ev. rank ev = 0 \<or> rank ev = 6) (load_model env network)"
  unfolding load_model_def by auto

lemma fill_one_emits: "emits_only P (fill_one env network i img)"
  unfolding fill_one_def Let_def by auto

lemma fill_inputs_emits: "emits_only P (fill_inputs env network i imgs)"
  by (induction imgs arbitrary: i) (auto intro: fill_one_emits)

lemma prepare_input_emits: "emits_only P (prepare_input env network imgs)"
  unfolding prepare_input_def by (auto intro: fill_inputs_emits)

lemma infer_loop_emits: "emits_only (\<lambda>ev. ev = Infer) (infer_loop env bound iter total_ms)"
proof (induction env bound iter total_ms rule: infer_loop.induct)
  case (1 env bound iter total_ms)
  show ?case
    by (subst infer_loop.simps) (auto intro: 1)
qed

lemma do_inference_emits: "emits_only (\<lambda>ev. rank ev = 7) (do_inference fl env)"
  unfolding do_inference_def
  by (auto intro: emits_only_mono [OF infer_loop_emits])

lemma convert_planes_emits:
  "emits_only (\<lambda>ev. rank ev = 8 \<and> \<not> is_imwrite ev) (convert_planes n starts h w)"
  by (induction starts) (auto simp: convertTo_def)

lemma write_images_emits:
  "emits_only (\<lambda>ev. rank ev = 8) (write_images fl env n c h w is)"
  by (induction "is") (auto simp: Let_def intro: emits_only_mono [OF convert_planes_emits])

lemma process_output_emits:
  "emits_only (\<lambda>ev. rank ev = 8) (process_output fl env network name)"
  unfolding process_output_def by (auto intro: write_images_emits)

lemma infer_and_output_emits:
  "emits_only (\<lambda>ev. rank ev = 7 \<or> rank ev = 8) (infer_and_output fl env network name)"
  unfolding infer_and_output_def
  by (auto intro: emits_only_mono [OF do_inference_emits] emits_only_mono [OF process_output_emits])

subsection \<open>Which parts leave the input blobs alone\<close>

lemma keeps_blobsD: "keeps_blobs p \<Longrightarrow> p s = (r, s') \<Longrightarrow> blobs s' = blobs s"
  unfolding keeps_blobs_def by (metis snd_conv)

lemma keeps_blobs_ret [intro!]: "keeps_blobs (ret x)"
  by (simp add: keeps_blobs_def ret_def)

lemma keeps_blobs_throw [intro!]: "keeps_blobs (throw e)"
  by (simp add: keeps_blobs_def throw_def)

lemma keeps_blobs_undefined [intro!]: "keeps_blobs undefined_behaviour"
  by (simp add: keeps_blobs_def undefined_behaviour_def)

lemma keeps_blobs_emit [intro!]: "keeps_blobs (emit ev)"
  by (simp add: keeps_blobs_def emit_def)

lemma keeps_blobs_seq [intro!]:
  assumes "keeps_blobs m" and "\<And>x. keeps_blobs (f x)"
  shows "keeps_blobs (seq m f)"
  unfolding keeps_blobs_def
proof
  fix s
  obtain r1 s1 where m: "m s = (r1, s1)" by (cases "m s")
  with assms(1) have b1: "blobs s1 = blobs s" by (rule keeps_blobsD)
  show "blobs (snd (seq m f s)) = blobs s"
  proof (cases r1)
    case (Ok x)
    obtain r2 s2 where f: "f x s1 = (r2, s2)" by (cases "f x s1")
    with assms(2) have "blobs s2 = blobs s1" by (rule keeps_blobsD)
    with m Ok f b1 show ?thesis by (simp add: seq_def)
  qed (use m b1 in \<open>simp_all add: seq_def\<close>)
qed

lemma keeps_blobs_call [intro!]: "keeps_blobs (call ev outcome)"
  unfolding call_def by (cases outcome) auto

lemma keeps_blobs_get [intro!]: "keeps_blobs (get outcome)"
  unfolding get_def by (cases outcome) auto

lemma keeps_blobs_subscript [intro!]: "keeps_blobs (subscript xs k)"
  unfolding subscript_def by auto

lemma keeps_blobs_if [intro!]:
  "(c \<Longrightarrow> keeps_blobs a) \<Longrightarrow> (\<not> c \<Longrightarrow> keeps_blobs b) \<Longrightarrow> keeps_blobs (if c then a else b)"
  by simp





subsection \<open>What the handlers add\<close>

lemma main_of_try_block:
  assumes "try_block fl env init = (rt, st)"
  shows "fst (main fl env) = exit_code rt"
    and "trace (snd (main fl env)) = trace st @ final_log rt"
    and "blobs (snd (main fl env)) = blobs st"
  using assms
  by (auto simp: main_def handlers_def exit_code_def final_log_def
      split: result.splits exn.splits bool.splits)

lemma final_log_rank: "list_all (\<lambda>ev. rank ev = 0 \<or> rank ev = 9) (final_log r)"
  by (auto simp: final_log_def split: result.splits exn.splits bool.splits)

lemma exit_code_completed [simp]: "exit_code (completed r) = exit_code r"
  by (cases r) (simp_all add: exit_code_def completed_def)

subsection \<open>How far a run got\<close>

text \<open>
  If a part of the program only adds steps that satisfy \<open>P\<close>, the record satisfied
  \<open>P\<close> before it and does not satisfy it at the end, then that part returned normally
  and the step in question came later.
\<close>

lemma seq_peel:
  assumes run: "seq m f s = (r, s')"
    and m: "emits_only P m"
    and before: "list_all P (trace s)"
    and after: "\<not> list_all P (trace s')"
  obtains x s1 where "m s = (Ok x, s1)" "f x s1 = (r, s')" "list_all P (trace s1)"
proof -
  obtain r1 s1 where ms: "m s = (r1, s1)" by (cases "m s")
  with m obtain evs where "trace s1 = trace s @ evs" "list_all P evs"
    by (rule emits_onlyD)
  with before have s1: "list_all P (trace s1)" by simp
  show ?thesis
  proof (cases r1)
    case (Ok x)
    with ms run have "f x s1 = (r, s')" by (simp add: seq_def)
    with ms Ok s1 show ?thesis by (intro that [of x s1]) simp_all
  next
    case (Throws e)
    with ms run have "s' = s1" by (simp add: seq_def)
    with s1 after show ?thesis by simp
  next
    case Undefined
    with ms run have "s' = s1" by (simp add: seq_def)
    with s1 after show ?thesis by simp
  qed
qed

lemma parse_Ok:
  assumes "ParseAndCheckCommandLine fl s = (Ok c, s1)"
  shows "c \<longleftrightarrow> \<not> FLAGS_h fl"
    and "c \<Longrightarrow> 1 \<le> sint (FLAGS_ni fl) \<and> FLAGS_i fl \<noteq> [] \<and> FLAGS_m fl \<noteq> []"
  using assms
  by (auto simp: ParseAndCheckCommandLine_def seq_emit seq_def emit_def ret_def throw_def
      split: if_splits)

lemma read_network_Ok:
  assumes "read_network fl env s = (Ok network, s')"
  shows "network = getNetwork env" and "GetNetwork \<in> set (trace s')"
  using assms
  by (auto simp: read_network_def Let_def seq_def emit_def call_def ret_def throw_def
      split: option.splits)

lemma read_network_not_Ok:
  assumes "read_network fl env s = (r, s')" and "\<forall>x. r \<noteq> Ok x"
  shows "\<exists>evs. trace s' = trace s @ evs \<and> list_all (\<lambda>ev. rank ev \<le> 2 \<and> ev \<noteq> GetNetwork) evs"
  using assms
  by (auto simp: read_network_def Let_def seq_def emit_def call_def ret_def throw_def
      split: option.splits)

text \<open>
  A run whose record holds a step that the start-up cannot have added: the flags were
  accepted, there are candidate paths, the plugin was loaded, and the rest of the
  \<open>try\<close> block ran from there.
\<close>

lemma try_block_startup:
  fixes env :: "('w::len word, 'd::{zero,plus,inverse}) env"
  assumes run: "try_block fl env init = (rt, st)"
    and after: "\<not> list_all P (trace st)"
    and P: "\<And>ev :: 'd event. rank ev \<le> 1 \<Longrightarrow> P ev"
  obtains s1 where
    "\<not> FLAGS_h fl" "1 \<le> sint (FLAGS_ni fl)"
    "parseInputFilesArguments env (FLAGS_i fl) \<noteq> []"
    "list_all P (trace s1)"
    "seq (read_network fl env) (\<lambda>network.
       seq (configure_and_run fl env network (parseInputFilesArguments env (FLAGS_i fl)))
         (\<lambda>_. ret True)) s1 = (rt, st)"
proof -
  let ?names = "parseInputFilesArguments env (FLAGS_i fl)"
  let ?s0 = "(init :: 'd state)\<lparr>trace := trace (init :: 'd state) @ [Info ''InferenceEngine: '']\<rparr>"
  let ?K = "\<lambda>continue. if \<not> continue then ret False
       else
         let imageNames = parseInputFilesArguments env (FLAGS_i fl) in
         if imageNames = [] then throw (Std_exception ''No suitable images were found'')
         else
           seq (load_plugin fl env) (\<lambda>_.
           seq (read_network fl env) (\<lambda>network.
           seq (configure_and_run fl env network imageNames) (\<lambda>_. ret True)))"
  have s0: "list_all P (trace ?s0)"
    by (simp add: init_def P)
  have pe: "emits_only P (ParseAndCheckCommandLine fl :: ('d, bool) prog)"
    by (rule emits_only_mono [OF parse_emits]) (simp add: P)
  have le: "emits_only P (load_plugin fl env)"
    by (rule emits_only_mono [OF load_plugin_emits]) (simp add: P)
  have run': "seq (ParseAndCheckCommandLine fl) ?K ?s0 = (rt, st)"
    using run by (simp add: try_block_def seq_emit)
  obtain c s1 where parse: "ParseAndCheckCommandLine fl ?s0 = (Ok c, s1)"
    and k: "?K c s1 = (rt, st)" and s1: "list_all P (trace s1)"
    by (rule seq_peel [OF run' pe s0 after])
  have c: c
    using k s1 after by (cases c) (auto simp: ret_def)
  with parse_Ok [OF parse] have fl: "\<not> FLAGS_h fl" "1 \<le> sint (FLAGS_ni fl)"
    by simp_all
  have names: "?names \<noteq> []"
    using k c s1 after by (auto simp: Let_def throw_def split: if_splits)
  with k c have run2: "seq (load_plugin fl env) (\<lambda>_.
           seq (read_network fl env) (\<lambda>network.
           seq (configure_and_run fl env network ?names) (\<lambda>_. ret True))) s1 = (rt, st)"
    by (simp add: Let_def)
  obtain u s2 where "list_all P (trace s2)"
    and "seq (read_network fl env) (\<lambda>network.
           seq (configure_and_run fl env network ?names) (\<lambda>_. ret True)) s2 = (rt, st)"
    by (rule seq_peel [OF run2 le s1 after])
  with fl names show ?thesis
    by (intro that [of s2]) simp_all
qed

lemma prepare_input_blobs_unsupported:
  assumes "length (inputsInfo network) \<noteq> 1" and "length (inputsInfo network) \<noteq> 2"
  shows "prepare_input_blobs env network names s =
           (Throws (Std_exception ''The demo supports topologies with 1 or 2 inputs only''),
            s\<lparr>trace := trace s @ [Info ''Preparing input blobs'']\<rparr>)"
  using assms by (simp add: prepare_input_blobs_def seq_emit throw_def)

lemma prepare_input_blobs_Ok:
  assumes "prepare_input_blobs env network names s = (Ok (inputImages, network'), s')"
  shows "network' = network\<lparr>batchSize := length names\<rparr>"
    and "inputImages \<noteq> []"
    and "length (inputsInfo network) = 1 \<or> length (inputsInfo network) = 2"
    and "\<exists>sc. collect_images env (inputsInfo network) names []
                (s\<lparr>trace := trace s @ [Info ''Preparing input blobs'']\<rparr>) = (Ok inputImages, sc)
              \<and> trace s' = trace sc @ [SetBatchSize (length names), Info_batch_size (length names)]
              \<and> blobs s' = blobs sc"
  using assms
  by (auto simp: prepare_input_blobs_def Let_def seq_def emit_def call_def ret_def throw_def
      split: if_splits prod.splits result.splits option.splits)

text \<open>
  A run whose record holds \<open>GetNetwork\<close> got as far as section 3.
\<close>

lemma reaches_configure:
  fixes env :: "('w::len word, 'd::{zero,plus,inverse}) env"
  assumes "GetNetwork \<in> set (trace (snd (main fl env)))"
  obtains s2 r s' where
    "\<not> FLAGS_h fl" "1 \<le> sint (FLAGS_ni fl)"
    "parseInputFilesArguments env (FLAGS_i fl) \<noteq> []"
    "list_all (\<lambda>ev. rank ev \<le> 2) (trace s2)"
    "configure_and_run fl env (getNetwork env) (parseInputFilesArguments env (FLAGS_i fl)) s2
       = (r, s')"
    "fst (main fl env) = exit_code r"
    "trace (snd (main fl env)) = trace s' @ final_log (completed r)"
    "blobs (snd (main fl env)) = blobs s'"
proof -
  let ?names = "parseInputFilesArguments env (FLAGS_i fl)"
  let ?P = "\<lambda>ev :: 'd event. rank ev \<le> 2 \<and> ev \<noteq> GetNetwork"
  obtain rt st where tb: "try_block fl env init = (rt, st)"
    by (cases "try_block fl env init")
  note m = main_of_try_block [OF tb]
  have "GetNetwork \<notin> set (final_log rt :: 'd event list)"
    using final_log_rank [of rt] by (auto simp: list_all_iff)
  with assms m(2) have "GetNetwork \<in> set (trace st)" by simp
  then have after: "\<not> list_all ?P (trace st)"
    by (auto simp: list_all_iff)
  obtain s1 where fl: "\<not> FLAGS_h fl" "1 \<le> sint (FLAGS_ni fl)" "?names \<noteq> []"
    and s1: "list_all ?P (trace s1)"
    and run: "seq (read_network fl env) (\<lambda>network.
       seq (configure_and_run fl env network ?names) (\<lambda>_. ret True)) s1 = (rt, st)"
    by (rule try_block_startup [OF tb after]) auto
  from run show ?thesis
  proof (cases rule: seq_cases)
    case (ok network s2)
    from read_network_Ok [OF ok(1)] have network: "network = getNetwork env" by simp
    obtain evs where "trace s2 = trace s1 @ evs" "list_all (\<lambda>ev. rank ev = 0 \<or> rank ev = 2) evs"
      using read_network_emits ok(1) by (rule emits_onlyD)
    with s1 have s2: "list_all (\<lambda>ev. rank ev \<le> 2) (trace s2)"
      by (auto simp: list_all_iff)
    obtain r s' where car: "configure_and_run fl env (getNetwork env) ?names s2 = (r, s')"
      by (cases "configure_and_run fl env (getNetwork env) ?names s2")
    from ok(2) network
      seq_ret_True [of "configure_and_run fl env (getNetwork env) ?names" s2 r s', OF car]
    have "rt = completed r" "st = s'"
      by simp_all
    with m fl s2 car show ?thesis
      by (intro that [of s2 r s']) simp_all
  next
    case (throws e)
    with read_network_not_Ok [of fl env s1 "Throws e" st] s1 after show ?thesis
      by (auto simp: list_all_iff)
  next
    case undefined
    with read_network_not_Ok [of fl env s1 Undefined st] s1 after show ?thesis
      by (auto simp: list_all_iff)
  qed
qed

text \<open>
  A run whose record holds a step of section 7 or 8 got as far as section 7.
\<close>

lemma reaches_inference:
  fixes env :: "('w::len word, 'd::{zero,plus,inverse}) env"
  assumes ev: "ev \<in> set (trace (snd (main fl env)))" and rank: "rank ev = 7 \<or> rank ev = 8"
  obtains inputImages firstOutputName s2 sc s5 s6 r s' where
    "\<not> FLAGS_h fl" "1 \<le> sint (FLAGS_ni fl)"
    "parseInputFilesArguments env (FLAGS_i fl) \<noteq> []"
    "length (inputsInfo (getNetwork env)) = 1 \<or> length (inputsInfo (getNetwork env)) = 2"
    "collect_images env (inputsInfo (getNetwork env)) (parseInputFilesArguments env (FLAGS_i fl)) []
       s2 = (Ok inputImages, sc)"
    "inputImages \<noteq> []"
    "prepare_input env
       ((getNetwork env)\<lparr>batchSize := length (parseInputFilesArguments env (FLAGS_i fl))\<rparr>)
       inputImages s5 = (Ok (), s6)"
    "list_all (\<lambda>ev. rank ev \<le> 6) (trace s6)"
    "infer_and_output fl env
       ((getNetwork env)\<lparr>batchSize := length (parseInputFilesArguments env (FLAGS_i fl))\<rparr>)
       firstOutputName s6 = (r, s')"
    "fst (main fl env) = exit_code r"
    "trace (snd (main fl env)) = trace s' @ final_log (completed r)"
    "blobs (snd (main fl env)) = blobs s'"
proof -
  let ?names = "parseInputFilesArguments env (FLAGS_i fl)"
  let ?net = "(getNetwork env)\<lparr>batchSize := length ?names\<rparr>"
  let ?P = "\<lambda>ev :: 'd event. rank ev \<le> 6"
  obtain rt st where tb: "try_block fl env init = (rt, st)"
    by (cases "try_block fl env init")
  note m = main_of_try_block [OF tb]
  have "ev \<notin> set (final_log rt)"
    using final_log_rank [of rt] rank by (auto simp: list_all_iff)
  with ev m(2) have "ev \<in> set (trace st)" by simp
  moreover from rank have "\<not> rank ev \<le> 6" by auto
  ultimately have after: "\<not> list_all ?P (trace st)"
    unfolding list_all_iff by blast
  obtain s1 where fl: "\<not> FLAGS_h fl" "1 \<le> sint (FLAGS_ni fl)" "?names \<noteq> []"
    and s1: "list_all ?P (trace s1)"
    and run1: "seq (read_network fl env) (\<lambda>network.
       seq (configure_and_run fl env network ?names) (\<lambda>_. ret True)) s1 = (rt, st)"
    by (rule try_block_startup [OF tb after]) auto
  have e_read: "emits_only ?P (read_network fl env)"
    by (rule emits_only_mono [OF read_network_emits]) auto
  obtain network s2 where rn: "read_network fl env s1 = (Ok network, s2)"
    and run2: "seq (configure_and_run fl env network ?names) (\<lambda>_. ret True) s2 = (rt, st)"
    and s2: "list_all ?P (trace s2)"
    by (rule seq_peel [OF run1 e_read s1 after])
  from read_network_Ok [OF rn] have network: "network = getNetwork env" by simp
  obtain r s' where car: "configure_and_run fl env (getNetwork env) ?names s2 = (r, s')"
    by (cases "configure_and_run fl env (getNetwork env) ?names s2")
  from run2 network
    seq_ret_True [of "configure_and_run fl env (getNetwork env) ?names" s2 r s', OF car]
  have rt: "rt = completed r" "st = s'"
    by simp_all
  with after have after': "\<not> list_all ?P (trace s')" by simp
  have e_in: "emits_only ?P (prepare_input_blobs env (getNetwork env) ?names)"
    by (rule emits_only_mono [OF prepare_input_blobs_emits]) auto
  have e_out: "emits_only ?P (prepare_output_blobs network :: ('d, string) prog)" for network :: "'w word network"
    by (rule emits_only_mono [OF prepare_output_blobs_emits]) auto
  have e_load: "emits_only ?P (load_model env network)" for network
    by (rule emits_only_mono [OF load_model_emits]) auto
  have e_fill: "emits_only ?P (prepare_input env network imgs)" for network imgs
    by (rule prepare_input_emits)
  from car have run3: "seq (prepare_input_blobs env (getNetwork env) ?names)
      (\<lambda>(inputImages, network).
        seq (prepare_output_blobs network) (\<lambda>firstOutputName.
        seq (load_model env network) (\<lambda>_.
        seq (prepare_input env network inputImages) (\<lambda>_.
          infer_and_output fl env network firstOutputName)))) s2 = (r, s')"
    by (simp add: configure_and_run_def)
  obtain x s3 where pib: "prepare_input_blobs env (getNetwork env) ?names s2 = (Ok x, s3)"
    and run4: "(case x of (inputImages, network) \<Rightarrow>
        seq (prepare_output_blobs network) (\<lambda>firstOutputName.
        seq (load_model env network) (\<lambda>_.
        seq (prepare_input env network inputImages) (\<lambda>_.
          infer_and_output fl env network firstOutputName)))) s3 = (r, s')"
    and s3: "list_all ?P (trace s3)"
    by (rule seq_peel [OF run3 e_in s2 after'])
  obtain inputImages network' where x: "x = (inputImages, network')" by (cases x)
  note pib' = prepare_input_blobs_Ok [OF pib [unfolded x]]
  from pib'(4) obtain sc where
    collect: "collect_images env (inputsInfo (getNetwork env)) ?names []
                (s2\<lparr>trace := trace s2 @ [Info ''Preparing input blobs'']\<rparr>) = (Ok inputImages, sc)"
    by blast
  from run4 x pib'(1) have run5: "seq (prepare_output_blobs ?net) (\<lambda>firstOutputName.
        seq (load_model env ?net) (\<lambda>_.
        seq (prepare_input env ?net inputImages) (\<lambda>_.
          infer_and_output fl env ?net firstOutputName))) s3 = (r, s')"
    by simp
  obtain firstOutputName s4 where
    run6: "seq (load_model env ?net) (\<lambda>_.
        seq (prepare_input env ?net inputImages) (\<lambda>_.
          infer_and_output fl env ?net firstOutputName)) s4 = (r, s')"
    and s4: "list_all ?P (trace s4)"
    by (rule seq_peel [OF run5 e_out s3 after'])
  obtain u s5 where
    run7: "seq (prepare_input env ?net inputImages) (\<lambda>_.
          infer_and_output fl env ?net firstOutputName) s5 = (r, s')"
    and s5: "list_all ?P (trace s5)"
    by (rule seq_peel [OF run6 e_load s4 after'])
  obtain v s6 where fill: "prepare_input env ?net inputImages s5 = (Ok v, s6)"
    and run8: "infer_and_output fl env ?net firstOutputName s6 = (r, s')"
    and s6: "list_all ?P (trace s6)"
    by (rule seq_peel [OF run7 e_fill s5 after'])
  show ?thesis
    using fl pib'(2,3) collect fill s6 run8 m rt
    by (intro that [of _ inputImages sc s5 s6 firstOutputName r s']) simp_all
qed

subsection \<open>Conversions\<close>

lemma to_int_eq: "to_int (x :: 'w::len word) = (uint x + 2 ^ 31) mod 2 ^ 32 - 2 ^ 31"
proof -
  have eq: "(ucast x :: 32 word) = word_of_int (uint x)"
    by transfer simp
  show ?thesis
    by (simp only: to_int_def eq int_word_sint) simp
qed

lemma to_int_uint:
  fixes x :: "'w::len word"
  assumes "uint x < 2 ^ 31"
  shows "to_int x = uint x"
  using assms by (simp add: to_int_eq)

lemma to_int_le: "nat (to_int x) \<le> unat x"
proof -
  have "(uint x + 2 ^ 31) mod 2 ^ 32 \<le> uint x + 2 ^ 31"
    by (rule zmod_le_nonneg_dividend) simp
  then have "to_int x \<le> uint x"
    by (simp add: to_int_eq)
  then show ?thesis
    by (simp add: nat_le_iff)
qed

lemma unat_scast_ni:
  fixes ni :: "32 word"
  assumes "32 \<le> LENGTH('w::len)" and "1 \<le> sint ni"
  shows "unat (scast ni :: 'w word) = nat (sint ni)"
proof -
  have "sint ni < 2 ^ 31"
    using sint_lt [of ni] by simp
  also have "(2::int) ^ 31 < 2 ^ LENGTH('w)"
    using assms(1) by (intro power_strict_increasing) simp_all
  finally have lt: "sint ni < 2 ^ LENGTH('w)" .
  have eq: "(scast ni :: 'w word) = word_of_int (sint ni)"
    by transfer simp
  have "uint (scast ni :: 'w word) = sint ni mod 2 ^ LENGTH('w)"
    by (simp only: eq uint_word_of_int)
  also have "\<dots> = sint ni"
    using assms(2) lt by simp
  finally show ?thesis
    by (simp add: unat_eq_nat_uint)
qed

subsection \<open>Section 3: the image filter\<close>








subsection \<open>Section 6: what the fill loop leaves in the blobs\<close>



subsection \<open>Section 7: the inference loop\<close>

lemma infer_loop_Ok:
  assumes "infer_loop env bound iter total_ms s = (Ok x, s')"
  shows "x = foldl (+) total_ms (map (duration env) [iter ..< bound]) \<and>
         trace s' = trace s @ replicate (bound - iter) Infer"
  using assms
proof (induction env bound iter total_ms arbitrary: s rule: infer_loop.induct)
  case (1 env bound iter total_ms)
  show ?case
  proof (cases "iter < bound")
    case True
    with "1.prems" have
      "seq (call Infer (infer env iter))
         (\<lambda>_. infer_loop env bound (Suc iter) (total_ms + duration env iter)) s = (Ok x, s')"
      by (simp add: infer_loop.simps [of env bound iter])
    then obtain u s1 where c: "call Infer (infer env iter) s = (Ok u, s1)"
      and l: "infer_loop env bound (Suc iter) (total_ms + duration env iter) s1 = (Ok x, s')"
      by (auto elim: seq_cases)
    from c have s1: "trace s1 = trace s @ [Infer]"
      by (auto simp: call_def seq_def emit_def ret_def throw_def split: option.splits)
    from "1.IH" [OF True l] s1 True show ?thesis
      by (simp add: upt_conv_Cons replicate_app_Cons_same Suc_diff_Suc
          flip: replicate_Suc)
  next
    case False
    with "1.prems" show ?thesis
      by (simp add: infer_loop.simps [of env bound iter] ret_def)
  qed
qed

subsection \<open>Section 8: where the output planes are read, and the files written\<close>

lemma plane_reads_below:
  assumes "idx \<in> set (plane_reads start h w)"
  shows "idx < unat start + unat h * unat w"
proof -
  have "nat (to_int h) * nat (to_int w) \<le> unat h * unat w"
    by (intro mult_le_mono to_int_le)
  with assms show ?thesis
    by (auto simp: plane_reads_def)
qed

lemma plane_starts_unat:
  fixes N C H W i :: "'w::len word"
  assumes C: "unat C = 3" and i: "i < N"
    and fits: "unat N * unat C * unat H * unat W < 2 ^ LENGTH('w)"
  shows "map unat (plane_starts i (W * H) C) =
           [unat i * (3 * (unat H * unat W)),
            unat i * (3 * (unat H * unat W)) + unat H * unat W,
            unat i * (3 * (unat H * unat W)) + 2 * (unat H * unat W)]"
    and "unat i * (3 * (unat H * unat W)) + 3 * (unat H * unat W)
           \<le> unat N * unat C * unat H * unat W"
proof -
  let ?A = "unat H * unat W"
  let ?M = "(2::nat) ^ LENGTH('w)"
  from i have "Suc (unat i) \<le> unat N"
    by (simp add: word_less_nat_alt)
  then have "Suc (unat i) * (3 * ?A) \<le> unat N * (3 * ?A)"
    by (rule mult_le_mono1)
  then have le: "unat i * (3 * ?A) + 3 * ?A \<le> unat N * unat C * unat H * unat W"
    by (simp add: C algebra_simps)
  with fits have lt: "unat i * (3 * ?A) + 3 * ?A < ?M"
    by simp
  have WH: "unat (W * H) = ?A"
    using lt by (subst unat_mult_lem [THEN iffD1]) (simp_all add: mult.commute)
  have iWH: "unat (i * (W * H)) = unat i * ?A"
  proof -
    have "unat i * ?A \<le> unat i * (3 * ?A)" by simp
    with lt have "unat i * unat (W * H) < ?M" by (simp add: WH)
    then show ?thesis
      by (subst unat_mult_lem [THEN iffD1]) (simp_all add: WH)
  qed
  have base: "unat (i * (W * H) * C) = unat i * (3 * ?A)"
  proof -
    from lt have "unat (i * (W * H)) * unat C < ?M" by (simp add: iWH C)
    then show ?thesis
      by (subst unat_mult_lem [THEN iffD1]) (simp_all add: iWH C)
  qed
  have two: "unat (2 :: 'w word) = 2"
  proof -
    have "3 < ?M"
      using C unsigned_less [of C, where 'a = nat] by simp
    moreover have "unat (word_of_nat 2 :: 'w word) = 2 mod ?M"
      by (rule unat_of_nat)
    ultimately show ?thesis by simp
  qed
  have WH2: "unat (W * H * 2) = 2 * ?A"
  proof -
    from lt have "?A * 2 < ?M" by simp
    then have "unat (W * H) * unat (2 :: 'w word) < ?M"
      by (simp only: WH two)
    then have e: "unat (W * H * 2) = unat (W * H) * unat (2 :: 'w word)"
      by (rule unat_mult_lem [THEN iffD1])
    show ?thesis
      unfolding e WH two by simp
  qed
  have p1: "unat (i * (W * H) * C + W * H) = unat i * (3 * ?A) + ?A"
  proof -
    from lt have "unat (i * (W * H) * C) + unat (W * H) < ?M" by (simp add: base WH)
    then show ?thesis
      by (subst unat_add_lem [THEN iffD1]) (simp_all add: base WH)
  qed
  have p2: "unat (i * (W * H) * C + W * H * 2) = unat i * (3 * ?A) + 2 * ?A"
  proof -
    from lt have "unat (i * (W * H) * C) + unat (W * H * 2) < ?M" by (simp add: base WH2)
    then show ?thesis
      by (subst unat_add_lem [THEN iffD1]) (simp_all add: base WH2)
  qed
  show "map unat (plane_starts i (W * H) C) =
           [unat i * (3 * ?A), unat i * (3 * ?A) + ?A, unat i * (3 * ?A) + 2 * ?A]"
    by (simp add: plane_starts_def base p1 p2)
  show "unat i * (3 * ?A) + 3 * ?A \<le> unat N * unat C * unat H * unat W"
    by (rule le)
qed

lemma write_images_Ok:
  assumes "write_images fl env n c h w is s = (Ok u, s')"
  shows "filter is_imwrite (trace s')
           = filter is_imwrite (trace s)
             @ map (\<lambda>i. ImWrite (''sr_'' @ to_string (i + 1) @ ''.png'')) is"
  using assms
proof (induction "is" arbitrary: s)
  case Nil
  then show ?case by (simp add: ret_def)
next
  case (Cons i rest)
  let ?name = "''sr_'' @ to_string (i + 1) @ ''.png''"
  from Cons.prems obtain v0 s0 where
    planes: "convert_planes n (plane_starts (of_nat i) (w * h) c) h w s = (Ok v0, s0)"
    and run: "seq (if FLAGS_show fl then call ImShow (imshow env i) else ret ())
      (\<lambda>_. seq (call (ImWrite ?name) (imwrite env ?name))
        (\<lambda>_. write_images fl env n c h w rest)) s0 = (Ok u, s')"
    by (auto simp: Let_def elim: seq_cases)
  from convert_planes_emits planes obtain evs where
    "trace s0 = trace s @ evs" "list_all (\<lambda>ev. rank ev = 8 \<and> \<not> is_imwrite ev) evs"
    by (rule emits_onlyD)
  then have t0: "filter is_imwrite (trace s0) = filter is_imwrite (trace s)"
    by (simp add: filter_empty_conv list_all_iff)
  from run obtain v s1 where
    show1: "(if FLAGS_show fl then call ImShow (imshow env i) else ret ()) s0 = (Ok v, s1)"
    and run2: "seq (call (ImWrite ?name) (imwrite env ?name))
        (\<lambda>_. write_images fl env n c h w rest) s1 = (Ok u, s')"
    by (auto elim: seq_cases)
  from run2 obtain v' s2 where wr: "call (ImWrite ?name) (imwrite env ?name) s1 = (Ok v', s2)"
    and rest: "write_images fl env n c h w rest s2 = (Ok u, s')"
    by (auto elim: seq_cases)
  from show1 have t1: "filter is_imwrite (trace s1) = filter is_imwrite (trace s0)"
    by (auto simp: call_def seq_def emit_def ret_def throw_def split: if_splits option.splits)
  from wr have t2: "trace s2 = trace s1 @ [ImWrite ?name]"
    by (auto simp: call_def seq_def emit_def ret_def throw_def split: option.splits)
  from Cons.IH [OF rest] t0 t1 t2 show ?case by simp
qed

text \<open>
  The planes that the loop converts, and when it runs into undefined behaviour.
\<close>

lemma conversions_Nil [simp]: "conversions [] = []"
  by (simp add: conversions_def)

lemma conversions_append [simp]: "conversions (a @ b) = conversions a @ conversions b"
  by (simp add: conversions_def)

lemma conversions_ConvertTo [simp]: "conversions [ConvertTo reads] = [reads]"
  by (simp add: conversions_def reads_of_def)

lemma conversions_Info_output_size [simp]: "conversions [Info_output_size a b c d] = []"
  by (simp add: conversions_def reads_of_def)

lemma plane_starts_mod:
  fixes c h w :: "'w::len word"
  shows "map unat (plane_starts (of_nat i) (w * h) c) =
    map (\<lambda>offset. (i * (unat c * (unat h * unat w)) + offset) mod 2 ^ LENGTH('w))
      [0, unat h * unat w, 2 * (unat h * unat w)]"
proof -
  let ?B = "i * (unat c * (unat h * unat w))" and ?A = "unat h * unat w"
  have base: "of_nat i * (w * h) * c = (of_nat (?B + 0) :: 'w word)"
    by (simp add: algebra_simps)
  have p1: "of_nat i * (w * h) * c + w * h = (of_nat (?B + ?A) :: 'w word)"
    by (simp add: algebra_simps)
  have p2: "of_nat i * (w * h) * c + w * h * 2 = (of_nat (?B + 2 * ?A) :: 'w word)"
    by (simp add: algebra_simps)
  have e0: "unat (of_nat i * (w * h) * c) = (?B + 0) mod 2 ^ LENGTH('w)"
    by (subst base) (rule unat_of_nat)
  have e1: "unat (of_nat i * (w * h) * c + w * h) = (?B + ?A) mod 2 ^ LENGTH('w)"
    by (subst p1) (rule unat_of_nat)
  have e2: "unat (of_nat i * (w * h) * c + w * h * 2) = (?B + 2 * ?A) mod 2 ^ LENGTH('w)"
    by (subst p2) (rule unat_of_nat)
  show ?thesis
    by (simp only: plane_starts_def list.map e0 e1 e2)
qed

lemma plane_reads_int:
  assumes "unat h < 2 ^ 31" and "unat w < 2 ^ 31"
  shows "plane_reads start h w = map (\<lambda>k. unat start + k) [0 ..< unat h * unat w]"
proof -
  from assms have "int (unat h) < int (2 ^ 31)" "int (unat w) < int (2 ^ 31)"
    by (simp_all only: of_nat_less_iff)
  then have "uint h < 2 ^ 31" "uint w < 2 ^ 31"
    by (simp_all only: uint_nat of_nat_power of_nat_numeral)
  then have eq: "to_int h = uint h" "to_int w = uint w"
    by (simp_all add: to_int_uint)
  show ?thesis
    by (simp only: plane_reads_def eq unat_eq_nat_uint [of h] unat_eq_nat_uint [of w])
qed

lemma element_planes_reads:
  fixes c h w :: "'w::len word"
  assumes "unat h < 2 ^ 31" and "unat w < 2 ^ 31"
  shows "map (\<lambda>start. plane_reads start h w) (plane_starts (of_nat i) (w * h) c)
           = element_planes (\<lambda>x. x mod 2 ^ LENGTH('w)) (unat c) (unat h) (unat w) i"
proof -
  have "map (\<lambda>start. plane_reads start h w) (plane_starts (of_nat i) (w * h) c)
      = map (\<lambda>start. map (\<lambda>k. start + k) [0 ..< unat h * unat w])
          (map unat (plane_starts (of_nat i) (w * h) c))"
    by (simp add: plane_reads_int [OF assms] comp_def)
  then show ?thesis
    unfolding plane_starts_mod by (simp add: element_planes_def)
qed

lemma convert_planes_trace:
  assumes "convert_planes n starts h w s = (r, s')"
  shows "\<exists>ps. prefix ps starts
            \<and> trace s' = trace s @ map (\<lambda>start. ConvertTo (plane_reads start h w)) ps
            \<and> (r = Ok () \<longrightarrow> ps = starts) \<and> (\<forall>e. r \<noteq> Throws e)
            \<and> (r = Undefined \<longleftrightarrow> (\<exists>start \<in> set ps. \<exists>idx \<in> set (plane_reads start h w). n \<le> idx))"
  using assms
proof (induction starts arbitrary: s)
  case Nil
  then show ?case by (auto simp: ret_def)
next
  case (Cons start rest)
  let ?s1 = "s\<lparr>trace := trace s @ [ConvertTo (plane_reads start h w)]\<rparr>"
  show ?case
  proof (cases "list_ex (\<lambda>idx. n \<le> idx) (plane_reads start h w)")
    case True
    with Cons.prems have "undefined_behaviour ?s1 = (r, s')"
      by (simp add: convertTo_def seq_emit seq_assoc)
    then have "r = Undefined" "s' = ?s1"
      by (simp_all add: undefined_behaviour_def)
    moreover from True have "\<exists>start \<in> set [start]. \<exists>idx \<in> set (plane_reads start h w). n \<le> idx"
      by (simp add: list_ex_iff)
    ultimately show ?thesis
      by (intro exI [of _ "[start]"]) simp
  next
    case False
    with Cons.prems have "convert_planes n rest h w ?s1 = (r, s')"
      by (simp add: convertTo_def seq_emit seq_assoc)
    from Cons.IH [OF this] obtain ps where ps: "prefix ps rest"
      "trace s' = trace ?s1 @ map (\<lambda>start. ConvertTo (plane_reads start h w)) ps"
      "r = Ok () \<longrightarrow> ps = rest" "\<forall>e. r \<noteq> Throws e"
      "r = Undefined \<longleftrightarrow> (\<exists>start \<in> set ps. \<exists>idx \<in> set (plane_reads start h w). n \<le> idx)"
      by blast
    from False have "\<not> (\<exists>idx \<in> set (plane_reads start h w). n \<le> idx)"
      by (simp add: list_ex_iff)
    with ps show ?thesis
      by (intro exI [of _ "start # ps"]) auto
  qed
qed

lemma conversions_rank:
  assumes "list_all (\<lambda>ev. rank ev \<noteq> 8) evs"
  shows "conversions evs = []"
  using assms by (induction evs) (auto simp: conversions_def reads_of_def split: event.splits)

lemma conversions_map_ConvertTo [simp]:
  "conversions (map (\<lambda>start. ConvertTo (f start)) ps) = map f ps"
  by (induction ps) (simp_all add: conversions_def reads_of_def)

lemma call_conversions:
  assumes "call ev outcome s = (r, s')" and "\<And>reads. ev \<noteq> ConvertTo reads"
  shows "conversions (trace s') = conversions (trace s)" and "r \<noteq> Undefined"
    and "r = Ok () \<or> (\<exists>e. r = Throws e)"
  using assms
  by (auto simp: call_def seq_def emit_def ret_def throw_def conversions_def reads_of_def
      split: option.splits event.splits)

lemma show_conversions:
  assumes "(if b then call ImShow outcome else ret ()) s = (r, s')"
  shows "conversions (trace s') = conversions (trace s)" and "r \<noteq> Undefined"
  using assms call_conversions [of ImShow outcome s r s']
  by (auto simp: ret_def split: if_splits)

lemma write_images_conversions:
  assumes "write_images fl env n c h w is s = (r, s')"
  shows "\<exists>zs. conversions (trace s') = conversions (trace s) @ zs
           \<and> prefix zs (concat (map (\<lambda>i. map (\<lambda>start. plane_reads start h w)
                                           (plane_starts (of_nat i) (w * h) c)) is))
           \<and> (r = Ok () \<longrightarrow> zs = concat (map (\<lambda>i. map (\<lambda>start. plane_reads start h w)
                                           (plane_starts (of_nat i) (w * h) c)) is))
           \<and> (r = Undefined \<longleftrightarrow> (\<exists>reads \<in> set zs. \<exists>idx \<in> set reads. n \<le> idx))"
  using assms
proof (induction "is" arbitrary: s)
  case Nil
  then show ?case by (auto simp: ret_def)
next
  case (Cons i rest)
  let ?starts = "plane_starts (of_nat i) (w * h) c"
  let ?planes = "map (\<lambda>start. plane_reads start h w) ?starts"
  let ?expected = "\<lambda>js. concat (map (\<lambda>i. map (\<lambda>start. plane_reads start h w)
                                           (plane_starts (of_nat i) (w * h) c)) js)"
  let ?name = "''sr_'' @ to_string (i + 1) @ ''.png''"
  let ?beyond = "\<lambda>zs. \<exists>reads \<in> set zs. \<exists>idx \<in> set reads. n \<le> idx"
  obtain r0 s0 where planes: "convert_planes n ?starts h w s = (r0, s0)"
    by (cases "convert_planes n ?starts h w s")
  from convert_planes_trace [OF planes] obtain ps where ps: "prefix ps ?starts"
    "trace s0 = trace s @ map (\<lambda>start. ConvertTo (plane_reads start h w)) ps"
    "r0 = Ok () \<longrightarrow> ps = ?starts" "\<forall>e. r0 \<noteq> Throws e"
    "r0 = Undefined \<longleftrightarrow> (\<exists>start \<in> set ps. \<exists>idx \<in> set (plane_reads start h w). n \<le> idx)"
    by blast
  have c0: "conversions (trace s0) = conversions (trace s) @ map (\<lambda>start. plane_reads start h w) ps"
    by (simp add: ps(2))
  have pre: "prefix (map (\<lambda>start. plane_reads start h w) ps) (?expected (i # rest))"
    using ps(1) by (auto simp: prefix_def)
  from ps(5) have b0: "r0 = Undefined \<longleftrightarrow> ?beyond (map (\<lambda>start. plane_reads start h w) ps)"
    by auto
  show ?case
  proof (cases r0)
    case (Ok u0)
    with ps(3) have full: "ps = ?starts" by simp
    from Ok b0 full have within: "\<not> ?beyond ?planes" by simp
    from Cons.prems planes Ok have run: "seq (if FLAGS_show fl then call ImShow (imshow env i) else ret ())
      (\<lambda>_. seq (call (ImWrite ?name) (imwrite env ?name))
        (\<lambda>_. write_images fl env n c h w rest)) s0 = (r, s')"
      by (simp add: seq_Ok Let_def)
    obtain r1 s1 where show1:
      "(if FLAGS_show fl then call ImShow (imshow env i) else ret ()) s0 = (r1, s1)"
      by (cases "(if FLAGS_show fl then call ImShow (imshow env i) else ret ()) s0")
    note sc = show_conversions [OF show1]
    obtain r2 s2 where wr: "call (ImWrite ?name) (imwrite env ?name) s1 = (r2, s2)"
      by (cases "call (ImWrite ?name) (imwrite env ?name) s1")
    have wc: "conversions (trace s2) = conversions (trace s1)" "r2 \<noteq> Undefined"
      "r2 = Ok () \<or> (\<exists>e. r2 = Throws e)"
      by (rule call_conversions [OF wr], simp)+
    consider (stop1) e where "r1 = Throws e" "r = Throws e" "s' = s1"
      | (stop2) e where "r2 = Throws e" "r = Throws e" "s' = s2" "\<exists>u. r1 = Ok u"
      | (go) "write_images fl env n c h w rest s2 = (r, s')" "\<exists>u. r1 = Ok u" "r2 = Ok ()"
    proof (cases r1)
      case (Ok u1)
      with run show1 have run2: "seq (call (ImWrite ?name) (imwrite env ?name))
        (\<lambda>_. write_images fl env n c h w rest) s1 = (r, s')"
        by (simp add: seq_Ok)
      from wc(3) show ?thesis
      proof
        assume "r2 = Ok ()"
        with run2 wr Ok show ?thesis by (intro go) (simp_all add: seq_Ok)
      next
        assume "\<exists>e. r2 = Throws e"
        then obtain e where "r2 = Throws e" ..
        with run2 wr Ok show ?thesis by (intro stop2 [of e]) (simp_all add: seq_Throws)
      qed
    next
      case (Throws e)
      with run show1 show ?thesis by (intro stop1 [of e]) (simp_all add: seq_Throws)
    next
      case Undefined
      with sc(2) show ?thesis by simp
    qed
    then show ?thesis
    proof cases
      case stop1
      with sc(1) c0 full pre within show ?thesis
        by (intro exI [of _ ?planes]) simp
    next
      case stop2
      with sc(1) wc(1) c0 full pre within show ?thesis
        by (intro exI [of _ ?planes]) simp
    next
      case go
      from Cons.IH [OF go(1)] obtain zs where zs:
        "conversions (trace s') = conversions (trace s2) @ zs"
        "prefix zs (?expected rest)" "r = Ok () \<longrightarrow> zs = ?expected rest"
        "r = Undefined \<longleftrightarrow> ?beyond zs"
        by blast
      from within zs(4) have "r = Undefined \<longleftrightarrow> ?beyond (?planes @ zs)"
        by auto
      with zs(1-3) sc(1) wc(1) c0 full show ?thesis
        by (intro exI [of _ "?planes @ zs"]) simp
    qed
  next
    case (Throws e)
    with ps(4) show ?thesis by simp
  next
    case Undefined
    with Cons.prems planes have "r = Undefined" "s' = s0"
      by (simp_all add: seq_Undefined)
    with Undefined b0 c0 pre show ?thesis
      by (intro exI [of _ "map (\<lambda>start. plane_reads start h w) ps"]) simp
  qed
qed

lemma convert_planes_steps:
  "emits_only (\<lambda>ev. \<forall>a b c d. ev \<noteq> Info_output_size a b c d) (convert_planes n starts h w)"
  by (induction starts) (auto simp: convertTo_def)

lemma write_images_steps:
  "emits_only (\<lambda>ev. \<forall>a b c d. ev \<noteq> Info_output_size a b c d) (write_images fl env n c h w is)"
  by (induction "is") (auto simp: Let_def intro: convert_planes_steps)

lemma process_output_reached:
  assumes run: "process_output fl env net name s = (r, s')"
    and inn: "Info_output_size N C H W \<in> set (trace s')"
    and out: "Info_output_size N C H W \<notin> set (trace s)"
  obtains outDims where "getBlob env (batchSize net) name = Inr outDims" "4 \<le> length outDims"
    "N = unat (outDims ! 0)" "C = unat (outDims ! 1)" "H = unat (outDims ! 2)"
    "W = unat (outDims ! 3)"
    "write_images fl env (prod_list (map unat outDims)) (outDims ! 1) (outDims ! 2) (outDims ! 3)
       [0 ..< unat (outDims ! 0)] (s\<lparr>trace := trace s @ [Info_output_size N C H W]\<rparr>) = (r, s')"
proof -
  from inn out have ne: "s' \<noteq> s" by auto
  obtain outDims where g: "getBlob env (batchSize net) name = Inr outDims"
    using run ne
    by (cases "getBlob env (batchSize net) name")
      (auto simp: process_output_def get_def seq_def throw_def)
  have len: "4 \<le> length outDims"
    using run g ne
    by (auto simp: process_output_def get_def seq_def ret_def subscript_def undefined_behaviour_def
        split: if_splits)
  let ?ev = "Info_output_size (unat (outDims ! 0)) (unat (outDims ! 1)) (unat (outDims ! 2))
         (unat (outDims ! 3))"
  let ?s8 = "s\<lparr>trace := trace s @ [?ev]\<rparr>"
  from len have "outDims \<noteq> []" by auto
  with run g len have wi: "write_images fl env (prod_list (map unat outDims)) (outDims ! 1)
      (outDims ! 2) (outDims ! 3) [0 ..< unat (outDims ! 0)] ?s8 = (r, s')"
    by (simp add: process_output_def get_def subscript_def seq_emit)
  from write_images_steps wi obtain evs where
    "trace s' = trace ?s8 @ evs" "list_all (\<lambda>ev. \<forall>a b c d. ev \<noteq> Info_output_size a b c d) evs"
    by (rule emits_onlyD)
  with inn out have "Info_output_size N C H W = ?ev"
    by (auto simp: list_all_iff)
  then have eq: "N = unat (outDims ! 0)" "C = unat (outDims ! 1)" "H = unat (outDims ! 2)"
    "W = unat (outDims ! 3)"
    by simp_all
  from wi eq g len show ?thesis
    by (intro that [of outDims]) simp_all
qed

text \<open>
  A run whose record holds the output size got as far as the loop of lines 249--267.
\<close>

lemma reaches_output:
  fixes env :: "('w::len word, 'd::{zero,plus,inverse}) env"
  assumes "Info_output_size N C H W \<in> set (trace (snd (main fl env)))"
  obtains name outDims s8 r s' where
    "getBlob env (length (parseInputFilesArguments env (FLAGS_i fl))) name = Inr outDims"
    "4 \<le> length outDims"
    "N = unat (outDims ! 0)" "C = unat (outDims ! 1)" "H = unat (outDims ! 2)"
    "W = unat (outDims ! 3)"
    "conversions (trace s8) = []"
    "write_images fl env (prod_list (map unat outDims)) (outDims ! 1) (outDims ! 2) (outDims ! 3)
       [0 ..< unat (outDims ! 0)] s8 = (r, s')"
    "fst (main fl env) = exit_code r"
    "conversions (trace (snd (main fl env))) = conversions (trace s')"
proof -
  let ?names = "parseInputFilesArguments env (FLAGS_i fl)"
  let ?net = "(getNetwork env)\<lparr>batchSize := length ?names\<rparr>"
  let ?ev = "Info_output_size N C H W :: 'd event"
  from assms obtain firstOutputName s6 r s' where
    s6: "list_all (\<lambda>ev. rank ev \<le> 6) (trace s6)"
    and run: "infer_and_output fl env ?net firstOutputName s6 = (r, s')"
    and m: "fst (main fl env) = exit_code r"
      "trace (snd (main fl env)) = trace s' @ final_log (completed r)"
    by (rule reaches_inference) simp_all
  have fr: "list_all (\<lambda>ev. rank ev = 0 \<or> rank ev = 9) (final_log (completed r) :: 'd event list)"
    by (rule final_log_rank)
  then have "list_all (\<lambda>ev. rank ev \<noteq> 8) (final_log (completed r) :: 'd event list)"
    by (rule list.pred_mono_strong) auto
  then have fin2: "conversions (final_log (completed r) :: 'd event list) = []"
    by (rule conversions_rank)
  from fr have fin1: "?ev \<notin> set (final_log (completed r))"
    by (auto simp: list_all_iff)
  note fin = fin1 fin2
  with assms m(2) have in': "?ev \<in> set (trace s')" by simp
  have quiet: "?ev \<notin> set (trace s6 @ evs) \<and> conversions (trace s6 @ evs) = []"
    if "list_all (\<lambda>ev. rank ev = 7) evs" for evs :: "'d event list"
  proof -
    from s6 have a: "list_all (\<lambda>ev. rank ev \<noteq> 8) (trace s6)"
      by (rule list.pred_mono_strong) auto
    from that have b: "list_all (\<lambda>ev. rank ev \<noteq> 8) evs"
      by (rule list.pred_mono_strong) auto
    from a b have ab: "list_all (\<lambda>ev. rank ev \<noteq> 8) (trace s6 @ evs)"
      by simp
    have "?ev \<notin> set (trace s6 @ evs)"
    proof
      assume "?ev \<in> set (trace s6 @ evs)"
      with ab [unfolded list_all_iff] have "rank ?ev \<noteq> 8"
        by (rule bspec)
      then show False by simp
    qed
    with ab show ?thesis
      by (simp only: conversions_rank simp_thms)
  qed
  from run have "seq (do_inference fl env) (\<lambda>_. process_output fl env ?net firstOutputName) s6 = (r, s')"
    by (simp add: infer_and_output_def)
  then show ?thesis
  proof (cases rule: seq_cases)
    case (ok v s7)
    from do_inference_emits ok(1) obtain evs where
      "trace s7 = trace s6 @ evs" "list_all (\<lambda>ev. rank ev = 7) evs"
      by (rule emits_onlyD)
    with quiet have s7: "?ev \<notin> set (trace s7)" "conversions (trace s7) = []"
      by simp_all
    from ok(2) in' s7(1) obtain outDims where
      d: "getBlob env (batchSize ?net) firstOutputName = Inr outDims" "4 \<le> length outDims"
      "N = unat (outDims ! 0)" "C = unat (outDims ! 1)" "H = unat (outDims ! 2)"
      "W = unat (outDims ! 3)"
      and wi: "write_images fl env (prod_list (map unat outDims)) (outDims ! 1) (outDims ! 2)
        (outDims ! 3) [0 ..< unat (outDims ! 0)] (s7\<lparr>trace := trace s7 @ [?ev]\<rparr>) = (r, s')"
      by (rule process_output_reached)
    have "conversions (trace (s7\<lparr>trace := trace s7 @ [?ev]\<rparr>)) = []"
      by (simp add: s7(2))
    with d wi m fin(2) show ?thesis
      by (intro that [of firstOutputName outDims _ r s']) simp_all
  next
    case (throws e)
    from do_inference_emits throws(1) obtain evs where
      "trace s' = trace s6 @ evs" "list_all (\<lambda>ev. rank ev = 7) evs"
      by (rule emits_onlyD)
    with quiet in' show ?thesis by simp
  next
    case undefined
    from do_inference_emits undefined(1) obtain evs where
      "trace s' = trace s6 @ evs" "list_all (\<lambda>ev. rank ev = 7) evs"
      by (rule emits_onlyD)
    with quiet in' show ?thesis by simp
  qed
qed

lemma element_planes_exact:
  assumes "i < N" and "N * 3 * H * W < M"
  shows "element_planes (\<lambda>x. x mod M) 3 H W i = element_planes (\<lambda>x. x) 3 H W i"
proof -
  from assms(1) have "Suc i * (3 * (H * W)) \<le> N * (3 * (H * W))"
    by (intro mult_le_mono1) simp
  with assms(2) have "i * (3 * (H * W)) + 3 * (H * W) < M"
    by (simp add: algebra_simps)
  then have "i * (3 * (H * W)) mod M = i * (3 * (H * W))"
    "(i * (3 * (H * W)) + H * W) mod M = i * (3 * (H * W)) + H * W"
    "(i * (3 * (H * W)) + 2 * (H * W)) mod M = i * (3 * (H * W)) + 2 * (H * W)"
    by simp_all
  then show ?thesis
    by (simp add: element_planes_def)
qed

lemma reads_in_bounds:
  fixes Nw c h w :: "'w::len word"
  assumes C: "unat c = 3" and i: "i < unat Nw"
    and fits: "unat Nw * unat c * unat h * unat w < 2 ^ LENGTH('w)"
    and start: "start \<in> set (plane_starts (of_nat i) (w * h) c)"
    and idx: "idx \<in> set (plane_reads start h w)"
  shows "idx < unat Nw * unat c * unat h * unat w"
proof -
  have u: "unat (of_nat i :: 'w word) = i"
    using i by (intro le_unat_uoi [of _ Nw]) simp
  then have lt: "(of_nat i :: 'w word) < Nw"
    using i by (simp add: word_less_nat_alt)
  note ps = plane_starts_unat [OF C lt fits, unfolded u]
  from start have "unat start \<in> set (map unat (plane_starts (of_nat i) (w * h) c))"
    by simp
  with ps(1) have "unat start \<le> i * (3 * (unat h * unat w)) + 2 * (unat h * unat w)"
    by auto
  with plane_reads_below [OF idx] ps(2) show ?thesis
    by simp
qed


lemma four_dims:
  assumes "length xs = 4"
  shows "prod_list (map unat xs) = unat (xs ! 0) * unat (xs ! 1) * unat (xs ! 2) * unat (xs ! 3)"
proof -
  from assms obtain a b c d where "xs = [a, b, c, d]"
    by (auto simp: length_Suc_conv numeral_eq_Suc)
  then show ?thesis by simp
qed

subsection \<open>The concrete runs, evaluated\<close>

lemma demo_run:
  "fst (main demo_flags demo_env) = Exit 0"
  "trace (snd (main demo_flags demo_env)) =
     [Info ''InferenceEngine: '', Info ''Parsing input parameters'',
      Info ''Loading plugin'', GetPluginByDevice [] ''MYRIAD'', PrintPluginVersion,
      Info ''Loading network files'', ReadNetwork ''model.xml'', ReadWeights ''model.bin'',
      GetNetwork, Info ''Preparing input blobs'', Warn_cannot_read ''missing.bmp'',
      SetBatchSize 2, Info_batch_size 2, Info ''Preparing output blobs'',
      SetPrecisionFP32 ''129'', Info ''Loading model to the plugin'', LoadNetwork,
      Info ''Create infer request'', CreateInferRequest, Info_start_inference 2,
      Infer, Infer, Average 11, Info_output_size 2 3 4 4,
      ConvertTo [0 ..< 16], ConvertTo [16 ..< 32], ConvertTo [32 ..< 48], ImWrite ''sr_1.png'',
      ConvertTo [48 ..< 64], ConvertTo [64 ..< 80], ConvertTo [80 ..< 96], ImWrite ''sr_2.png'',
      Info ''Execution successful'']"
  "blobs (snd (main demo_flags demo_env)) ''0'' 0 = Some good_image"
  "blobs (snd (main demo_flags demo_env)) ''0'' 1 = None"
  "blobs (snd (main demo_flags demo_env)) ''1'' 0
     = Some \<lparr>rows = 4, cols = 4, data = replicate 48 7\<rparr>"
  by (simp_all add: run_defs demo_defs)

lemma demo_accepted:
  "accepted_images demo_env [1, 3, 2, 2] (parseInputFilesArguments demo_env (FLAGS_i demo_flags))
     = [good_image]"
  "accepted_images wrong_size_env [1, 3, 2, 2]
     (parseInputFilesArguments wrong_size_env (FLAGS_i demo_flags)) = []"
  by (simp_all add: demo_defs' size_matches_def)

lemma three_inputs_run:
  "trace (snd (main demo_flags three_inputs_env)) =
     [Info ''InferenceEngine: '', Info ''Parsing input parameters'',
      Info ''Loading plugin'', GetPluginByDevice [] ''MYRIAD'', PrintPluginVersion,
      Info ''Loading network files'', ReadNetwork ''model.xml'', ReadWeights ''model.bin'',
      GetNetwork, Info ''Preparing input blobs'',
      Err ''The demo supports topologies with 1 or 2 inputs only'']"
  by (simp add: run_defs demo_defs')



lemma one_channel_run:
  "fst (main demo_flags one_channel_env) = Crash"
  "trace (snd (main demo_flags one_channel_env)) =
     [Info ''InferenceEngine: '', Info ''Parsing input parameters'',
      Info ''Loading plugin'', GetPluginByDevice [] ''MYRIAD'', PrintPluginVersion,
      Info ''Loading network files'', ReadNetwork ''model.xml'', ReadWeights ''model.bin'',
      GetNetwork, Info ''Preparing input blobs'', Warn_cannot_read ''missing.bmp'',
      SetBatchSize 2, Info_batch_size 2, Info ''Preparing output blobs'',
      SetPrecisionFP32 ''129'', Info ''Loading model to the plugin'', LoadNetwork,
      Info ''Create infer request'', CreateInferRequest, Info_start_inference 2,
      Infer, Infer, Average 11, Info_output_size 2 1 4 4,
      ConvertTo [0 ..< 16], ConvertTo [16 ..< 32], ConvertTo [32 ..< 48]]"
  by (simp_all add: run_defs demo_defs')

lemma failing_backend_run:
  "try_block demo_flags failing_backend_env init
     = (Throws Unknown_exception, snd (try_block demo_flags failing_backend_env init))"
  by (simp add: run_defs demo_defs')

lemma zero_ni_run:
  "try_block zero_ni_flags demo_env init
     = (Throws (Std_exception ''Parameter -ni should be more than 0 !!! (default 1)''),
        snd (try_block zero_ni_flags demo_env init))"
  by (simp add: run_defs demo_defs')

subsection \<open>The batch size and the files written, in general\<close>

lemma prepare_input_blobs_batch_events:
  "emits_only (\<lambda>ev. rank ev = 4 \<longrightarrow> ev = SetBatchSize (length names) \<or> ev = Info_batch_size (length names))
     (prepare_input_blobs env network names)"
  unfolding prepare_input_blobs_def Let_def
  by (auto intro: emits_only_mono [OF collect_images_emits])

lemma configure_and_run_batch_events:
  "emits_only (\<lambda>ev. rank ev = 4 \<longrightarrow> ev = SetBatchSize (length names) \<or> ev = Info_batch_size (length names))
     (configure_and_run fl env network names)"
  unfolding configure_and_run_def
  by (auto intro!: prepare_input_blobs_batch_events emits_only_mono [OF prepare_output_blobs_emits]
      emits_only_mono [OF load_model_emits] emits_only_mono [OF infer_and_output_emits]
      prepare_input_emits)

text \<open>
  Whenever \<open>setBatchSize\<close> is called, its argument is the number of candidate paths
  (\<open>imageNames.size()\<close>, line 156), whatever the number of images that were accepted.
\<close>

lemma batch_size_is_candidate_count:
  fixes env :: "('w::len word, 'd::{zero,plus,inverse}) env"
  assumes "SetBatchSize n \<in> set (trace (snd (main fl env)))"
  shows "n = length (parseInputFilesArguments env (FLAGS_i fl))"
proof -
  let ?names = "parseInputFilesArguments env (FLAGS_i fl)"
  let ?P = "\<lambda>ev :: 'd event. rank ev \<noteq> 4"
  obtain rt st where tb: "try_block fl env init = (rt, st)"
    by (cases "try_block fl env init")
  note m = main_of_try_block [OF tb]
  have "SetBatchSize n \<notin> set (final_log rt :: 'd event list)"
    using final_log_rank [of rt] by (auto simp: list_all_iff)
  with assms m(2) have inst: "SetBatchSize n \<in> set (trace st)" by simp
  then have after: "\<not> list_all ?P (trace st)"
    by (auto simp: list_all_iff intro!: bexI [of _ "SetBatchSize n"])
  obtain s1 where s1: "list_all ?P (trace s1)"
    and run1: "seq (read_network fl env) (\<lambda>network.
       seq (configure_and_run fl env network ?names) (\<lambda>_. ret True)) s1 = (rt, st)"
    by (rule try_block_startup [OF tb after]) auto
  have e_read: "emits_only ?P (read_network fl env)"
    by (rule emits_only_mono [OF read_network_emits]) auto
  obtain network s2 where
    run2: "seq (configure_and_run fl env network ?names) (\<lambda>_. ret True) s2 = (rt, st)"
    and s2: "list_all ?P (trace s2)"
    by (rule seq_peel [OF run1 e_read s1 after])
  obtain r s' where car: "configure_and_run fl env network ?names s2 = (r, s')"
    by (cases "configure_and_run fl env network ?names s2")
  from run2 seq_ret_True [of "configure_and_run fl env network ?names" s2 r s', OF car]
  have "st = s'" by simp
  moreover from configure_and_run_batch_events car obtain evs where
    "trace s' = trace s2 @ evs"
    "list_all (\<lambda>ev. rank ev = 4 \<longrightarrow> ev = SetBatchSize (length ?names) \<or> ev = Info_batch_size (length ?names)) evs"
    by (rule emits_onlyD)
  ultimately show ?thesis
    using inst s2 by (auto simp: list_all_iff)
qed

text \<open>
  A run that ends with exit code 0 after section 8 has written one file for every batch
  element of the output blob (its first dimension), named \<open>sr_1.png\<close>, \<open>sr_2.png\<close>,
  and so on.
\<close>

lemma files_written:
  fixes env :: "('w::len word, 'd::{zero,plus,inverse}) env"
  assumes exit0: "fst (main fl env) = Exit 0"
    and out: "Info_output_size a b c d \<in> set (trace (snd (main fl env)))"
  shows "\<exists>name outDims.
           getBlob env (length (parseInputFilesArguments env (FLAGS_i fl))) name = Inr outDims \<and>
           4 \<le> length outDims \<and>
           filter is_imwrite (trace (snd (main fl env)))
             = map (\<lambda>i. ImWrite (''sr_'' @ to_string (i + 1) @ ''.png'')) [0 ..< unat (outDims ! 0)]"
proof -
  let ?names = "parseInputFilesArguments env (FLAGS_i fl)"
  let ?net = "(getNetwork env)\<lparr>batchSize := length ?names\<rparr>"
  from out obtain firstOutputName s6 r s' where
    s6: "list_all (\<lambda>ev. rank ev \<le> 6) (trace s6)"
    and run: "infer_and_output fl env ?net firstOutputName s6 = (r, s')"
    and m: "fst (main fl env) = exit_code r"
      "trace (snd (main fl env)) = trace s' @ final_log (completed r)"
    by (rule reaches_inference) simp_all
  from exit0 m(1) obtain u where r: "r = Ok u"
    by (cases r) (auto simp: exit_code_def)
  from run r obtain v s7 where inf: "do_inference fl env s6 = (Ok v, s7)"
    and po: "process_output fl env ?net firstOutputName s7 = (Ok u, s')"
    unfolding infer_and_output_def by (auto elim: seq_cases)
  from do_inference_emits inf obtain evs where
    "trace s7 = trace s6 @ evs" "list_all (\<lambda>ev. rank ev = 7) evs"
    by (rule emits_onlyD)
  with s6 have q7: "filter is_imwrite (trace s7) = []"
    by (auto simp: filter_empty_conv list_all_iff elim!: is_imwrite.elims)
  obtain outDims where g: "getBlob env (length ?names) firstOutputName = Inr outDims"
    using po
    by (cases "getBlob env (length ?names) firstOutputName")
      (auto simp: process_output_def get_def seq_def throw_def)
  have len: "4 \<le> length outDims"
    using po g
    by (auto simp: process_output_def get_def seq_def ret_def subscript_def undefined_behaviour_def
        split: if_splits)
  let ?s8 = "s7\<lparr>trace := trace s7 @
      [Info_output_size (unat (outDims ! 0)) (unat (outDims ! 1)) (unat (outDims ! 2))
         (unat (outDims ! 3))]\<rparr>"
  from len have ne: "outDims \<noteq> []" by auto
  from po g len ne have "write_images fl env (prod_list (map unat outDims)) (outDims ! 1)
      (outDims ! 2) (outDims ! 3) [0 ..< unat (outDims ! 0)] ?s8 = (Ok u, s')"
    by (simp add: process_output_def get_def subscript_def seq_emit)
  from write_images_Ok [OF this] q7 m(2) r g len show ?thesis
    by (auto simp: completed_def final_log_def)
qed

section \<open>Properties\<close>

subsection \<open>\<open>clip\<close>\<close>

text \<open>
  C10. For all values \<open>n\<close>, \<open>lower\<close>, \<open>upper\<close> of a linearly ordered type with
  \<open>lower \<le> upper\<close>, \<open>clip n lower upper\<close> lies in the closed interval
  \<open>[lower, upper]\<close>, and it is \<open>n\<close> itself whenever \<open>lower \<le> n \<le> upper\<close>.
\<close>

theorem clip_in_interval:
  fixes n lower upper :: "'a::linorder"
  assumes "lower \<le> upper"
  shows "lower \<le> clip n lower upper \<and> clip n lower upper \<le> upper
         \<and> (lower \<le> n \<and> n \<le> upper \<longrightarrow> clip n lower upper = n)"
  using assms by (auto simp: clip_def std_max_def std_min_def)

theorem clip_in_interval_witness:
  "(0::int) \<le> 255 \<and> 0 \<le> clip (300::int) 0 255 \<and> clip (300::int) 0 255 \<le> 255
   \<and> clip (300::int) 0 255 = 255 \<and> clip (7::int) 0 255 = 7"
proof -
  have h: "(0::int) \<le> 255" by simp
  have a: "clip (300::int) 0 255 = 255" by (simp add: clip_def std_max_def std_min_def)
  show ?thesis
    using clip_in_interval [OF h, of 300] clip_in_interval [OF h, of 7] a by simp
qed

subsection \<open>Argument validation and exit codes\<close>

text \<open>
  C5, as amended. If \<open>-ni\<close> is 0 or negative and the help flag is absent, the run
  aborts with a fatal error (the error line, exit code 1) before the model is loaded;
  if the help flag is present, the run shows the usage and exits with code 0. In both
  cases nothing else has happened: the model file is never read.
\<close>

theorem nonpositive_iterations:
  fixes env :: "('w::len word, 'd::{zero,plus,inverse}) env"
  assumes "sint (FLAGS_ni fl) \<le> 0"
  shows "(\<not> FLAGS_h fl \<longrightarrow>
            main fl env =
              (Exit 1,
               init\<lparr>trace := [Info ''InferenceEngine: '', Info ''Parsing input parameters'',
                 Err ''Parameter -ni should be more than 0 !!! (default 1)'']\<rparr>))
       \<and> (FLAGS_h fl \<longrightarrow>
            main fl env =
              (Exit 0,
               init\<lparr>trace := [Info ''InferenceEngine: '', Info ''Parsing input parameters'',
                 ShowUsage]\<rparr>))
       \<and> (\<forall>m. ReadNetwork m \<notin> set (trace (snd (main fl env))))"
  using assms
  by (auto simp: main_def handlers_def try_block_def ParseAndCheckCommandLine_def seq_emit
      seq_def ret_def throw_def emit_def init_def)

theorem nonpositive_iterations_witness:
  "sint (FLAGS_ni zero_ni_flags) \<le> 0 \<and> \<not> FLAGS_h zero_ni_flags \<and>
   main zero_ni_flags demo_env =
     (Exit 1,
      init\<lparr>trace := [Info ''InferenceEngine: '', Info ''Parsing input parameters'',
        Err ''Parameter -ni should be more than 0 !!! (default 1)'']\<rparr>) \<and>
   FLAGS_h help_flags \<and> sint (FLAGS_ni help_flags) \<le> 0 \<and>
   main help_flags demo_env =
     (Exit 0,
      init\<lparr>trace := [Info ''InferenceEngine: '', Info ''Parsing input parameters'', ShowUsage]\<rparr>)"
proof -
  have a: "sint (FLAGS_ni zero_ni_flags) \<le> 0" "\<not> FLAGS_h zero_ni_flags"
    and b: "sint (FLAGS_ni help_flags) \<le> 0" "FLAGS_h help_flags"
    by (simp_all add: zero_ni_flags_def help_flags_def demo_flags_def)
  show ?thesis
    using nonpositive_iterations [OF a(1), of demo_env] nonpositive_iterations [OF b(1), of demo_env]
      a b
    by simp
qed

text \<open>
  C5 as it was stated does not hold: with the help flag and \<open>-ni 0\<close> the run does not
  abort with a fatal error. Line 41 tests the help flag before line 46 tests the
  iteration count.
\<close>

theorem help_with_nonpositive_iterations_exits_0:
  "sint (FLAGS_ni help_flags) \<le> 0 \<and> fst (main help_flags demo_env) = Exit 0 \<and>
   trace (snd (main help_flags demo_env)) =
     [Info ''InferenceEngine: '', Info ''Parsing input parameters'', ShowUsage]"
  by (simp add: main_def handlers_def try_block_def ParseAndCheckCommandLine_def seq_emit
      seq_def ret_def throw_def emit_def init_def help_flags_def demo_flags_def)

text \<open>
  C8. The process exits with code 0 when the help flag is present and whenever the
  \<open>try\<close> block returns normally (the early return of line 66 or its end), and with
  code 1 exactly when an exception leaves the \<open>try\<close> block, be it derived from
  \<open>std::exception\<close> (its \<open>what()\<close> is logged) or not (the fixed line is logged).
\<close>

theorem exit_codes:
  fixes env :: "('w::len word, 'd::{zero,plus,inverse}) env"
  shows "(FLAGS_h fl \<longrightarrow> fst (main fl env) = Exit 0)
       \<and> (fst (main fl env) = Exit 0 \<longleftrightarrow> (\<exists>b s. try_block fl env init = (Ok b, s)))
       \<and> (fst (main fl env) = Exit 1 \<longleftrightarrow> (\<exists>e s. try_block fl env init = (Throws e, s)))
       \<and> (\<forall>what s. try_block fl env init = (Throws (Std_exception what), s) \<longrightarrow>
            main fl env = (Exit 1, s\<lparr>trace := trace s @ [Err what]\<rparr>))
       \<and> (\<forall>s. try_block fl env init = (Throws Unknown_exception, s) \<longrightarrow>
            main fl env =
              (Exit 1, s\<lparr>trace := trace s @ [Err ''Unknown/internal exception happened'']\<rparr>))"
proof -
  obtain rt st where tb: "try_block fl env init = (rt, st)"
    by (cases "try_block fl env init")
  have usage: "fst (main fl env) = Exit 0" if "FLAGS_h fl"
    using that
    by (simp add: main_def handlers_def try_block_def ParseAndCheckCommandLine_def seq_emit
        seq_def ret_def emit_def)
  from tb have "fst (main fl env) = Exit 0 \<longleftrightarrow> (\<exists>b. rt = Ok b)"
    and "fst (main fl env) = Exit 1 \<longleftrightarrow> (\<exists>e. rt = Throws e)"
    by (auto simp: main_def handlers_def split: result.splits exn.splits bool.splits)
  with tb usage show ?thesis
    by (auto simp: main_def handlers_def)
qed

theorem exit_codes_witness:
  "FLAGS_h help_flags \<and> fst (main help_flags demo_env) = Exit 0 \<and>
   fst (main demo_flags demo_env) = Exit 0 \<and>
   (\<exists>b s. try_block demo_flags demo_env init = (Ok b, s)) \<and>
   fst (main zero_ni_flags demo_env) = Exit 1 \<and>
   last (trace (snd (main zero_ni_flags demo_env)))
     = Err ''Parameter -ni should be more than 0 !!! (default 1)'' \<and>
   fst (main demo_flags failing_backend_env) = Exit 1 \<and>
   last (trace (snd (main demo_flags failing_backend_env)))
     = Err ''Unknown/internal exception happened''"
proof -
  have h: "FLAGS_h help_flags"
    by (simp add: help_flags_def demo_flags_def)
  note a = exit_codes [of help_flags demo_env]
  note b = exit_codes [of demo_flags demo_env]
  note c = exit_codes [of zero_ni_flags demo_env]
  note d = exit_codes [of demo_flags failing_backend_env]
  from a h have 1: "fst (main help_flags demo_env) = Exit 0" by blast
  from b demo_run(1) have 2: "\<exists>b s. try_block demo_flags demo_env init = (Ok b, s)" by blast
  from c zero_ni_run have 3: "main zero_ni_flags demo_env =
      (Exit 1, (snd (try_block zero_ni_flags demo_env init))
        \<lparr>trace := trace (snd (try_block zero_ni_flags demo_env init)) @
           [Err ''Parameter -ni should be more than 0 !!! (default 1)'']\<rparr>)"
    by blast
  from d failing_backend_run have 4: "main demo_flags failing_backend_env =
      (Exit 1, (snd (try_block demo_flags failing_backend_env init))
        \<lparr>trace := trace (snd (try_block demo_flags failing_backend_env init)) @
           [Err ''Unknown/internal exception happened'']\<rparr>)"
    by blast
  from h 1 2 demo_run(1) show ?thesis
    by (simp add: 3 4)
qed

subsection \<open>Input binding\<close>

text \<open>
  C4. If the network that was read declares fewer than 1 or more than 2 inputs, no
  forward pass is ever executed, and a run that got as far as taking the network from
  the reader ends with exit code 1 and the error line of line 127.
\<close>

theorem unsupported_input_count_aborts:
  fixes env :: "('w::len word, 'd::{zero,plus,inverse}) env"
  assumes "length (inputsInfo (getNetwork env)) < 1 \<or> 2 < length (inputsInfo (getNetwork env))"
  shows "Infer \<notin> set (trace (snd (main fl env))) \<and>
         (GetNetwork \<in> set (trace (snd (main fl env))) \<longrightarrow>
            fst (main fl env) = Exit 1 \<and>
            last (trace (snd (main fl env))) =
              Err ''The demo supports topologies with 1 or 2 inputs only'')"
proof (intro conjI impI)
  show "Infer \<notin> set (trace (snd (main fl env)))"
  proof
    assume "Infer \<in> set (trace (snd (main fl env)))"
    then have "length (inputsInfo (getNetwork env)) = 1 \<or> length (inputsInfo (getNetwork env)) = 2"
      by (rule reaches_inference) simp_all
    with assms show False by auto
  qed
next
  assume "GetNetwork \<in> set (trace (snd (main fl env)))"
  then obtain s2 r s' where
    car: "configure_and_run fl env (getNetwork env) (parseInputFilesArguments env (FLAGS_i fl)) s2
       = (r, s')"
    and m: "fst (main fl env) = exit_code r"
      "trace (snd (main fl env)) = trace s' @ final_log (completed r)"
    by (rule reaches_configure)
  from assms have n: "length (inputsInfo (getNetwork env)) \<noteq> 1"
    "length (inputsInfo (getNetwork env)) \<noteq> 2"
    by auto
  from car have "r = Throws (Std_exception ''The demo supports topologies with 1 or 2 inputs only'')"
    by (simp add: configure_and_run_def seq_def prepare_input_blobs_unsupported [OF n])
  with m show "fst (main fl env) = Exit 1"
    and "last (trace (snd (main fl env))) =
              Err ''The demo supports topologies with 1 or 2 inputs only''"
    by (simp_all add: exit_code_def completed_def final_log_def)
qed

theorem unsupported_input_count_aborts_witness:
  "2 < length (inputsInfo (getNetwork three_inputs_env)) \<and>
   GetNetwork \<in> set (trace (snd (main demo_flags three_inputs_env))) \<and>
   Infer \<notin> set (trace (snd (main demo_flags three_inputs_env))) \<and>
   fst (main demo_flags three_inputs_env) = Exit 1 \<and>
   last (trace (snd (main demo_flags three_inputs_env)))
     = Err ''The demo supports topologies with 1 or 2 inputs only''"
proof -
  have h: "length (inputsInfo (getNetwork three_inputs_env)) < 1
             \<or> 2 < length (inputsInfo (getNetwork three_inputs_env))"
    and h': "2 < length (inputsInfo (getNetwork three_inputs_env))"
    by (simp_all add: demo_defs')
  have g: "GetNetwork \<in> set (trace (snd (main demo_flags three_inputs_env)))"
    by (simp add: three_inputs_run)
  from unsupported_input_count_aborts [OF h, of demo_flags] g h' show ?thesis
    by blast
qed






text \<open>
  C1, at an input where the code breaks it. The batch size of the network should be the
  number of validated images; line 156 sets it to the number of candidate paths (lemma
  \<open>batch_size_is_candidate_count\<close>). In the concrete run one of the two candidates is
  accepted, the batch size is 2, and slot 1 of the input blob is never written.
\<close>

theorem batch_size_counts_rejected_image:
  "parseInputFilesArguments demo_env (FLAGS_i demo_flags) = [''good.bmp'', ''missing.bmp''] \<and>
   map_of (inputsInfo (getNetwork demo_env)) ''0'' = Some [1, 3, 2, 2] \<and>
   accepted_images demo_env [1, 3, 2, 2] [''good.bmp'', ''missing.bmp''] = [good_image] \<and>
   fst (main demo_flags demo_env) = Exit 0 \<and>
   SetBatchSize 2 \<in> set (trace (snd (main demo_flags demo_env))) \<and>
   Info_batch_size 2 \<in> set (trace (snd (main demo_flags demo_env))) \<and>
   blobs (snd (main demo_flags demo_env)) ''0'' 0 = Some good_image \<and>
   blobs (snd (main demo_flags demo_env)) ''0'' 1 = None"
proof -
  have p: "parseInputFilesArguments demo_env (FLAGS_i demo_flags) = [''good.bmp'', ''missing.bmp'']"
    and m: "map_of (inputsInfo (getNetwork demo_env)) ''0'' = Some [1, 3, 2, 2]"
    by (simp_all add: demo_defs')
  from demo_accepted(1) p
  have a: "accepted_images demo_env [1, 3, 2, 2] [''good.bmp'', ''missing.bmp''] = [good_image]"
    by simp
  have t: "SetBatchSize 2 \<in> set (trace (snd (main demo_flags demo_env)))"
    "Info_batch_size 2 \<in> set (trace (snd (main demo_flags demo_env)))"
    by (simp_all add: demo_run(2))
  from p m a t demo_run(1,3,4) show ?thesis
    by blast
qed

subsection \<open>Inference and output\<close>

text \<open>
  C7. Where \<open>size_t\<close> has at least 32 bits: whenever the average is reported, the
  iteration count \<open>N\<close> is at least 1, exactly \<open>N\<close> forward passes were executed, and
  the reported value is the sum of the \<open>N\<close> measured durations, accumulated from 0 in
  the order of the passes, divided by \<open>N\<close> converted to \<open>double\<close>.
\<close>

theorem average_of_measured_durations:
  fixes env :: "('w::len word, 'd::{zero,plus,inverse}) env"
  assumes size_t: "32 \<le> LENGTH('w)"
    and reported: "Average x \<in> set (trace (snd (main fl env)))"
  shows "1 \<le> sint (FLAGS_ni fl) \<and>
         length (filter (\<lambda>ev. ev = Infer) (trace (snd (main fl env)))) = nat (sint (FLAGS_ni fl)) \<and>
         x = foldl (+) 0 (map (duration env) [0 ..< nat (sint (FLAGS_ni fl))])
               / double_of_int env (sint (FLAGS_ni fl))"
proof -
  let ?names = "parseInputFilesArguments env (FLAGS_i fl)"
  let ?net = "(getNetwork env)\<lparr>batchSize := length ?names\<rparr>"
  let ?N = "nat (sint (FLAGS_ni fl))"
  let ?avg = "foldl (+) 0 (map (duration env) [0 ..< ?N])
               / double_of_int env (sint (FLAGS_ni fl))"
  from reported obtain firstOutputName s6 r s' where
    ni: "1 \<le> sint (FLAGS_ni fl)"
    and s6: "list_all (\<lambda>ev. rank ev \<le> 6) (trace s6)"
    and run: "infer_and_output fl env ?net firstOutputName s6 = (r, s')"
    and m: "trace (snd (main fl env)) = trace s' @ final_log (completed r)"
    by (rule reaches_inference) simp_all
  have N: "unat (scast (FLAGS_ni fl) :: 'w word) = ?N"
    using size_t ni by (rule unat_scast_ni)
  let ?s7 = "s6\<lparr>trace := trace s6 @ [Info_start_inference (sint (FLAGS_ni fl))]\<rparr>"
  have quiet6: "Average x \<notin> set (trace s6)" "filter (\<lambda>ev. ev = Infer) (trace s6) = []"
    using s6 by (auto simp: list_all_iff filter_empty_conv)
  have quietf: "Average x \<notin> set (final_log rt)" "filter (\<lambda>ev. ev = Infer) (final_log rt) = []" for rt
    using final_log_rank [of rt] by (auto simp: list_all_iff filter_empty_conv)
  from run have run': "seq (infer_loop env ?N 0 0) (\<lambda>total_ms.
       seq (seq (emit (Average (total_ms / double_of_int env (sint (FLAGS_ni fl))))) (\<lambda>_.
              if FLAGS_pc fl then call PrintPerformanceCounts (printPerformanceCounts env)
              else ret ()))
           (\<lambda>_. process_output fl env ?net firstOutputName)) ?s7 = (r, s')"
    by (simp add: infer_and_output_def do_inference_def seq_assoc seq_emit N)
  from run' show ?thesis
  proof (cases rule: seq_cases)
    case (ok total_ms s8)
    from infer_loop_Ok [OF ok(1)] have total: "total_ms = foldl (+) 0 (map (duration env) [0 ..< ?N])"
      and s8: "trace s8 = trace ?s7 @ replicate ?N Infer"
      by simp_all
    let ?s9 = "s8\<lparr>trace := trace s8 @ [Average ?avg]\<rparr>"
    have tail: "emits_only (\<lambda>ev. ev = PrintPerformanceCounts \<or> rank ev = 8)
      (seq (if FLAGS_pc fl then call PrintPerformanceCounts (printPerformanceCounts env) else ret ())
         (\<lambda>_. process_output fl env ?net firstOutputName))"
      by (auto intro: emits_only_mono [OF process_output_emits])
    from ok(2) total have "seq (if FLAGS_pc fl then call PrintPerformanceCounts (printPerformanceCounts env) else ret ())
         (\<lambda>_. process_output fl env ?net firstOutputName) ?s9 = (r, s')"
      by (simp add: seq_assoc seq_emit)
    with tail obtain evs where evs: "trace s' = trace ?s9 @ evs"
      "list_all (\<lambda>ev. ev = PrintPerformanceCounts \<or> rank ev = 8) evs"
      by (rule emits_onlyD)
    from evs(2) have quiet: "Average x \<notin> set evs" "filter (\<lambda>ev. ev = Infer) evs = []"
      by (auto simp: list_all_iff filter_empty_conv)
    from reported m evs(1) s8 quiet6 quietf quiet have "x = ?avg"
      by auto
    moreover from m evs(1) s8 quiet6 quietf quiet
    have "length (filter (\<lambda>ev. ev = Infer) (trace (snd (main fl env)))) = ?N"
      by simp
    ultimately show ?thesis using ni by simp
  next
    case (throws e)
    with infer_loop_emits [of env ?N 0 0] obtain evs where
      "trace s' = trace ?s7 @ evs" "list_all (\<lambda>ev. ev = Infer) evs"
      by (auto elim: emits_onlyD)
    with reported m quiet6 quietf throws(2) show ?thesis
      by (auto simp: list_all_iff)
  next
    case undefined
    with infer_loop_emits [of env ?N 0 0] obtain evs where
      "trace s' = trace ?s7 @ evs" "list_all (\<lambda>ev. ev = Infer) evs"
      by (auto elim: emits_onlyD)
    with reported m quiet6 quietf undefined(2) show ?thesis
      by (auto simp: list_all_iff)
  qed
qed

theorem average_of_measured_durations_witness:
  "32 \<le> LENGTH(32) \<and>
   Average 11 \<in> set (trace (snd (main demo_flags demo_env))) \<and>
   sint (FLAGS_ni demo_flags) = 2 \<and>
   length (filter (\<lambda>ev. ev = Infer) (trace (snd (main demo_flags demo_env)))) = 2 \<and>
   (11 :: real) = foldl (+) 0 (map (duration demo_env) [0 ..< 2]) / double_of_int demo_env 2"
proof -
  have s: "32 \<le> LENGTH(32)" by simp
  have a: "Average 11 \<in> set (trace (snd (main demo_flags demo_env)))"
    by (simp add: demo_run)
  have n: "sint (FLAGS_ni demo_flags) = 2"
    by (simp add: demo_flags_def)
  from average_of_measured_durations [OF s a] s a n show ?thesis
    by simp
qed

text \<open>
  C9. In every run that got as far as reporting the output size \<open>(N, C, H, W)\<close>:

  \<^item> where \<open>H\<close> and \<open>W\<close> are representable as \<open>int\<close> (the \<open>cv::Mat\<close> headers take
    them as \<open>int\<close>), the planes converted are, one batch element after the other, the
    three planes of \<open>H * W\<close> indices at the offsets 0, \<open>H * W\<close> and \<open>2 * (H * W)\<close> from
    \<open>i * (C * (H * W))\<close>, computed in \<open>size_t\<close>: the planes of the record are an initial
    part of that list, and all of it when the run ends with exit code 0;
  \<^item> if the output declares exactly 3 channels and the buffer size \<open>N * C * H * W\<close> is a
    \<open>size_t\<close>, none of these offsets wraps around and every index read is below
    \<open>N * C * H * W\<close>;
  \<^item> where the blobs of the request have four dimensions, the run ends in undefined
    behaviour exactly when one of the indices read is at or beyond \<open>N * C * H * W\<close>.
\<close>

theorem output_plane_reads:
  fixes env :: "('w::len word, 'd::{zero,plus,inverse}) env"
  assumes reached: "Info_output_size N C H W \<in> set (trace (snd (main fl env)))"
  shows "(H < 2 ^ 31 \<and> W < 2 ^ 31 \<longrightarrow>
            prefix (conversions (trace (snd (main fl env))))
              (concat (map (element_planes (\<lambda>x. x mod 2 ^ LENGTH('w)) C H W) [0 ..< N])) \<and>
            (fst (main fl env) = Exit 0 \<longrightarrow>
               conversions (trace (snd (main fl env)))
                 = concat (map (element_planes (\<lambda>x. x mod 2 ^ LENGTH('w)) C H W) [0 ..< N])))
       \<and> (C = 3 \<and> N * C * H * W < 2 ^ LENGTH('w) \<longrightarrow>
            (\<forall>i < N. element_planes (\<lambda>x. x mod 2 ^ LENGTH('w)) C H W i
                      = element_planes (\<lambda>x. x) C H W i) \<and>
            (\<forall>reads \<in> set (conversions (trace (snd (main fl env)))).
               \<forall>idx \<in> set reads. idx < N * C * H * W))
       \<and> ((\<forall>name dims.
              getBlob env (length (parseInputFilesArguments env (FLAGS_i fl))) name = Inr dims
                \<longrightarrow> length dims = 4) \<longrightarrow>
            (fst (main fl env) = Crash \<longleftrightarrow>
               (\<exists>reads \<in> set (conversions (trace (snd (main fl env)))).
                  \<exists>idx \<in> set reads. N * C * H * W \<le> idx)))"
proof -
  let ?names = "parseInputFilesArguments env (FLAGS_i fl)"
  from reached obtain name outDims s8 r s' where
    g: "getBlob env (length ?names) name = Inr outDims"
    and dims: "N = unat (outDims ! 0)" "C = unat (outDims ! 1)" "H = unat (outDims ! 2)"
      "W = unat (outDims ! 3)"
    and s8: "conversions (trace s8) = []"
    and wi: "write_images fl env (prod_list (map unat outDims)) (outDims ! 1) (outDims ! 2)
       (outDims ! 3) [0 ..< unat (outDims ! 0)] s8 = (r, s')"
    and m: "fst (main fl env) = exit_code r"
      "conversions (trace (snd (main fl env))) = conversions (trace s')"
    by (rule reaches_output)
  let ?c = "outDims ! 1" and ?h = "outDims ! 2" and ?w = "outDims ! 3"
  let ?model = "concat (map (\<lambda>i. map (\<lambda>start. plane_reads start ?h ?w)
                                    (plane_starts (of_nat i) (?w * ?h) ?c)) [0 ..< N])"
  from write_images_conversions [OF wi] s8 m(2) dims(1) have
    pre: "prefix (conversions (trace (snd (main fl env)))) ?model"
    and full: "r = Ok () \<longrightarrow> conversions (trace (snd (main fl env))) = ?model"
    and beyond: "r = Undefined \<longleftrightarrow>
      (\<exists>reads \<in> set (conversions (trace (snd (main fl env)))).
         \<exists>idx \<in> set reads. prod_list (map unat outDims) \<le> idx)"
    by auto
  have part1: "prefix (conversions (trace (snd (main fl env))))
              (concat (map (element_planes (\<lambda>x. x mod 2 ^ LENGTH('w)) C H W) [0 ..< N])) \<and>
            (fst (main fl env) = Exit 0 \<longrightarrow>
               conversions (trace (snd (main fl env)))
                 = concat (map (element_planes (\<lambda>x. x mod 2 ^ LENGTH('w)) C H W) [0 ..< N]))"
    if ints: "H < 2 ^ 31 \<and> W < 2 ^ 31"
  proof -
    from ints dims have "unat ?h < 2 ^ 31" "unat ?w < 2 ^ 31"
      by simp_all
    then have "map (\<lambda>start. plane_reads start ?h ?w) (plane_starts (of_nat i) (?w * ?h) ?c)
           = element_planes (\<lambda>x. x mod 2 ^ LENGTH('w)) C H W i" for i
      unfolding dims by (rule element_planes_reads)
    then have model: "?model = concat (map (element_planes (\<lambda>x. x mod 2 ^ LENGTH('w)) C H W) [0 ..< N])"
      by simp
    have "r = Ok ()" if "fst (main fl env) = Exit 0"
      using that m(1) by (cases r) (simp_all add: exit_code_def)
    with pre full show ?thesis
      unfolding model by blast
  qed
  have part2: "(\<forall>i < N. element_planes (\<lambda>x. x mod 2 ^ LENGTH('w)) C H W i
                      = element_planes (\<lambda>x. x) C H W i) \<and>
            (\<forall>reads \<in> set (conversions (trace (snd (main fl env)))).
               \<forall>idx \<in> set reads. idx < N * C * H * W)"
    if three: "C = 3 \<and> N * C * H * W < 2 ^ LENGTH('w)"
  proof (intro conjI allI impI ballI)
    fix i assume "i < N"
    with three show "element_planes (\<lambda>x. x mod 2 ^ LENGTH('w)) C H W i
                      = element_planes (\<lambda>x. x) C H W i"
      by (auto intro: element_planes_exact)
  next
    fix reads idx
    assume "reads \<in> set (conversions (trace (snd (main fl env))))" and idx: "idx \<in> set reads"
    with pre have "reads \<in> set ?model"
      using set_mono_prefix by blast
    then obtain i start where i: "i < N" and start: "start \<in> set (plane_starts (of_nat i) (?w * ?h) ?c)"
      and reads: "reads = plane_reads start ?h ?w"
      by auto
    from three [unfolded dims] have C3: "unat ?c = 3"
      and fits: "unat (outDims ! 0) * unat ?c * unat ?h * unat ?w < 2 ^ LENGTH('w)"
      by blast+
    from i have "i < unat (outDims ! 0)"
      by (simp only: dims)
    from reads_in_bounds [OF C3 this fits start idx [unfolded reads]] show "idx < N * C * H * W"
      by (simp only: dims)
  qed
  have part3: "fst (main fl env) = Crash \<longleftrightarrow>
               (\<exists>reads \<in> set (conversions (trace (snd (main fl env)))).
                  \<exists>idx \<in> set reads. N * C * H * W \<le> idx)"
    if four: "\<forall>name dims. getBlob env (length ?names) name = Inr dims \<longrightarrow> length dims = 4"
  proof -
    from four g have "length outDims = 4" by blast
    then have size: "prod_list (map unat outDims) = N * C * H * W"
      unfolding dims by (rule four_dims)
    have "fst (main fl env) = Crash \<longleftrightarrow> r = Undefined"
      using m(1) by (cases r) (simp_all add: exit_code_def)
    with beyond show ?thesis
      unfolding size by simp
  qed
  from part1 part2 part3 show ?thesis by blast
qed

theorem output_plane_reads_witness:
  "Info_output_size 2 3 4 4 \<in> set (trace (snd (main demo_flags demo_env))) \<and>
   (4 :: nat) < 2 ^ 31 \<and> (2 * 3 * 4 * 4 :: nat) < 2 ^ LENGTH(32) \<and>
   fst (main demo_flags demo_env) = Exit 0 \<and>
   conversions (trace (snd (main demo_flags demo_env)))
     = [[0 ..< 16], [16 ..< 32], [32 ..< 48], [48 ..< 64], [64 ..< 80], [80 ..< 96]] \<and>
   list_all (list_all (\<lambda>idx. idx < 96)) (conversions (trace (snd (main demo_flags demo_env)))) \<and>
   Info_output_size 2 1 4 4 \<in> set (trace (snd (main demo_flags one_channel_env))) \<and>
   fst (main demo_flags one_channel_env) = Crash \<and>
   list_ex (list_ex (\<lambda>idx. 2 * 1 * 4 * 4 \<le> idx))
     (conversions (trace (snd (main demo_flags one_channel_env))))"
proof -
  have g: "Info_output_size 2 3 4 4 \<in> set (trace (snd (main demo_flags demo_env)))"
    by (simp add: demo_run)
  have e: "fst (main demo_flags demo_env) = Exit 0"
    by (rule demo_run)
  have n: "(4 :: nat) < 2 ^ 31" "(3 :: nat) = 3 \<and> (2 * 3 * 4 * 4 :: nat) < 2 ^ LENGTH(32)"
    by simp_all
  have planes: "concat (map (element_planes (\<lambda>x. x mod 2 ^ LENGTH(32)) 3 4 4) [0 ..< 2])
      = [[0 ..< 16], [16 ..< 32], [32 ..< 48], [48 ..< 64], [64 ..< 80], [80 ..< 96]]"
    by (simp add: element_planes_def upt_conv_Cons)
  from output_plane_reads [OF g] n e
  have c: "conversions (trace (snd (main demo_flags demo_env)))
      = concat (map (element_planes (\<lambda>x. x mod 2 ^ LENGTH(32)) 3 4 4) [0 ..< 2])"
    and b: "\<forall>reads \<in> set (conversions (trace (snd (main demo_flags demo_env)))).
               \<forall>idx \<in> set reads. idx < 2 * 3 * 4 * 4"
    by blast+
  from b have b': "list_all (list_all (\<lambda>idx. idx < 96))
      (conversions (trace (snd (main demo_flags demo_env))))"
    by (simp add: list_all_iff)
  have g1: "Info_output_size 2 1 4 4 \<in> set (trace (snd (main demo_flags one_channel_env)))"
    by (simp add: one_channel_run)
  have e1: "fst (main demo_flags one_channel_env) = Crash"
    by (rule one_channel_run)
  have four: "\<forall>name dims.
      getBlob one_channel_env (length (parseInputFilesArguments one_channel_env (FLAGS_i demo_flags)))
        name = Inr dims \<longrightarrow> length dims = 4"
    by (auto simp: demo_defs' split: if_splits)
  from output_plane_reads [OF g1] four e1
  have "\<exists>reads \<in> set (conversions (trace (snd (main demo_flags one_channel_env)))).
          \<exists>idx \<in> set reads. 2 * 1 * 4 * 4 \<le> idx"
    by blast
  then have c1: "list_ex (list_ex (\<lambda>idx. 2 * 1 * 4 * 4 \<le> idx))
     (conversions (trace (snd (main demo_flags one_channel_env))))"
    unfolding list_ex_iff by blast
  from g n e c [unfolded planes] b' g1 e1 c1 show ?thesis
    by blast
qed

text \<open>
  C2, at an input where the code breaks it, by the defect of C1. The run should write one
  file per accepted image; the loop of lines 249--267 writes one file for every batch
  element of the output blob (lemma \<open>files_written\<close>), and the batch size counts the
  rejected candidates too. In the concrete run one image is accepted and two files are
  written.
\<close>

theorem output_file_for_rejected_image:
  "accepted_images demo_env [1, 3, 2, 2] (parseInputFilesArguments demo_env (FLAGS_i demo_flags))
     = [good_image] \<and>
   fst (main demo_flags demo_env) = Exit 0 \<and>
   filter is_imwrite (trace (snd (main demo_flags demo_env)))
     = [ImWrite ''sr_1.png'', ImWrite ''sr_2.png'']"
  by (simp add: demo_run demo_accepted)

end
